theory Spec2Isabelle
  imports Complex_Main
begin

section \<open>PromQL abstract syntax\<close>

text \<open>
  The analyser and the checks consume the abstract syntax tree of the Prometheus PromQL
  parser. The node kinds, their fields and the helper methods used by the code
  (\<open>Children\<close>, \<open>PositionRange\<close>, \<open>IsComparisonOperator\<close>, \<open>Card.String\<close>) are
  written out here as the code reads them.
\<close>

text \<open>
  A \<open>float64\<close> as far as its comparisons are concerned: not-a-number, the two infinities
  and the finite values (the two zeros compare equal and are one value here). Arithmetic
  on it is rounded and is taken as a parameter, see \<open>FloatArith\<close>.
\<close>

datatype float64 = NaN | NegInf | Finite real | PosInf

fun float_lt :: "float64 \<Rightarrow> float64 \<Rightarrow> bool" where
  "float_lt NaN _ = False"
| "float_lt _ NaN = False"
| "float_lt NegInf NegInf = False"
| "float_lt NegInf _ = True"
| "float_lt (Finite x) NegInf = False"
| "float_lt (Finite x) (Finite y) = (x < y)"
| "float_lt (Finite x) PosInf = True"
| "float_lt PosInf _ = False"

definition float_eq :: "float64 \<Rightarrow> float64 \<Rightarrow> bool" where
  "float_eq a b = (a \<noteq> NaN \<and> b \<noteq> NaN \<and> a = b)"

definition float_gt :: "float64 \<Rightarrow> float64 \<Rightarrow> bool" where
  "float_gt a b = float_lt b a"

definition float_le :: "float64 \<Rightarrow> float64 \<Rightarrow> bool" where
  "float_le a b = (float_lt a b \<or> float_eq a b)"

definition float_ge :: "float64 \<Rightarrow> float64 \<Rightarrow> bool" where
  "float_ge a b = float_le b a"

record FloatArith =
  f_add :: "float64 \<Rightarrow> float64 \<Rightarrow> float64"
  f_sub :: "float64 \<Rightarrow> float64 \<Rightarrow> float64"
  f_mul :: "float64 \<Rightarrow> float64 \<Rightarrow> float64"
  f_div :: "float64 \<Rightarrow> float64 \<Rightarrow> float64"
  f_mod :: "float64 \<Rightarrow> float64 \<Rightarrow> float64"
  f_pow :: "float64 \<Rightarrow> float64 \<Rightarrow> float64"

datatype ValueType =
  ValueTypeUnset | ValueTypeNone | ValueTypeVector | ValueTypeScalar | ValueTypeMatrix
  | ValueTypeString

datatype MatchType = MatchEqual | MatchNotEqual | MatchRegexp | MatchNotRegexp

datatype Matcher = Matcher (MType: MatchType) (MName: string) (MValue: string)

definition MetricName :: string where
  "MetricName = ''__name__''"

record PositionRange =
  Start :: int
  End :: int

record VectorSelectorT =
  Name :: string
  LabelMatchers :: "Matcher list"
  PosRange :: PositionRange

datatype ItemType =
  EQLC | NEQ | LTE | LSS | GTE | GTR
  | ADD | SUB | MUL | DIV | MOD | POW | ATAN2
  | LAND | LOR | LUNLESS
  | ItemSUM | ItemMIN | ItemMAX | AVG | GROUP | STDDEV | STDVAR | COUNT | COUNT_VALUES | QUANTILE
  | TOPK | BOTTOMK | LIMITK | LIMIT_RATIO

text \<open>
  \<open>ItemSUM\<close>, \<open>ItemMIN\<close> and \<open>ItemMAX\<close> are the parser's \<open>SUM\<close>, \<open>MIN\<close> and \<open>MAX\<close>.
\<close>

fun IsComparisonOperator :: "ItemType \<Rightarrow> bool" where
  "IsComparisonOperator EQLC = True"
| "IsComparisonOperator NEQ = True"
| "IsComparisonOperator LTE = True"
| "IsComparisonOperator LSS = True"
| "IsComparisonOperator GTE = True"
| "IsComparisonOperator GTR = True"
| "IsComparisonOperator _ = False"

datatype VectorMatchCardinality = CardOneToOne | CardManyToOne | CardOneToMany | CardManyToMany

fun CardString :: "VectorMatchCardinality \<Rightarrow> string" where
  "CardString CardOneToOne = ''one-to-one''"
| "CardString CardManyToOne = ''many-to-one''"
| "CardString CardOneToMany = ''one-to-many''"
| "CardString CardManyToMany = ''many-to-many''"

record VectorMatching =
  Card :: VectorMatchCardinality
  MatchingLabels :: "string list"
  On :: bool
  Include :: "string list"

record Function =
  FuncName :: string
  ArgTypes :: "ValueType list"

text \<open>
  The node kinds, with the fields the code reads, in this order:
  \<open>AggregateExpr Op Expr Param Grouping Without PosRange\<close>,
  \<open>BinaryExpr Op LHS RHS VectorMatching ReturnBool\<close>,
  \<open>Call Func Args PosRange\<close>,
  \<open>MatrixSelector VectorSelector EndPos\<close>,
  \<open>SubqueryExpr Expr EndPos\<close>,
  \<open>NumberLiteral Val PosRange\<close>,
  \<open>ParenExpr Expr PosRange\<close>,
  \<open>StringLiteral Val PosRange\<close>,
  \<open>UnaryExpr Op Expr StartPos\<close>,
  \<open>StepInvariantExpr Expr\<close>,
  \<open>VectorSelector\<close> with its name, matchers and position.
\<close>

datatype Node =
  AggregateExpr ItemType Node "Node option" "string list" bool PositionRange
  | BinaryExpr ItemType Node Node "VectorMatching option" bool
  | Call Function "Node list" PositionRange
  | MatrixSelector Node int
  | SubqueryExpr Node int
  | NumberLiteral float64 PositionRange
  | ParenExpr Node PositionRange
  | StringLiteral string PositionRange
  | UnaryExpr ItemType Node int
  | StepInvariantExpr Node
  | VectorSelector VectorSelectorT

fun Children :: "Node \<Rightarrow> Node list" where
  "Children (AggregateExpr op e param g w p) =
     (case param of None \<Rightarrow> [e] | Some q \<Rightarrow> [e, q])"
| "Children (BinaryExpr op l r vm rb) = [l, r]"
| "Children (Call f args p) = args"
| "Children (SubqueryExpr e ep) = [e]"
| "Children (ParenExpr e p) = [e]"
| "Children (UnaryExpr op e sp) = [e]"
| "Children (MatrixSelector vs ep) = [vs]"
| "Children (StepInvariantExpr e) = [e]"
| "Children (NumberLiteral v p) = []"
| "Children (StringLiteral v p) = []"
| "Children (VectorSelector vs) = []"

fun PositionRangeOf :: "Node \<Rightarrow> PositionRange" where
  "PositionRangeOf (AggregateExpr op e param g w p) = p"
| "PositionRangeOf (BinaryExpr op l r vm rb) =
     \<lparr>Start = Start (PositionRangeOf l), End = End (PositionRangeOf r)\<rparr>"
| "PositionRangeOf (Call f args p) = p"
| "PositionRangeOf (MatrixSelector vs ep) = \<lparr>Start = Start (PositionRangeOf vs), End = ep\<rparr>"
| "PositionRangeOf (SubqueryExpr e ep) = \<lparr>Start = Start (PositionRangeOf e), End = ep\<rparr>"
| "PositionRangeOf (NumberLiteral v p) = p"
| "PositionRangeOf (ParenExpr e p) = p"
| "PositionRangeOf (StringLiteral v p) = p"
| "PositionRangeOf (UnaryExpr op e sp) = \<lparr>Start = sp, End = End (PositionRangeOf e)\<rparr>"
| "PositionRangeOf (StepInvariantExpr e) = PositionRangeOf e"
| "PositionRangeOf (VectorSelector vs) = PosRange vs"

section \<open>The alerts/comparison check\<close>

text \<open>
  \<open>hasComparision\<close> returns the first binary expression, node before children and
  children left to right, whose operator is a comparison or \<open>unless\<close>.
\<close>

fun firstFound :: "'a option list \<Rightarrow> 'a option" where
  "firstFound [] = None"
| "firstFound (None # rs) = firstFound rs"
| "firstFound (Some n # rs) = Some n"

function (sequential) hasComparision :: "Node \<Rightarrow> Node option" where
  "hasComparision (BinaryExpr op l r vm rb) =
     (if IsComparisonOperator op then Some (BinaryExpr op l r vm rb)
      else if op = LUNLESS then Some (BinaryExpr op l r vm rb)
      else firstFound (map hasComparision (Children (BinaryExpr op l r vm rb))))"
| "hasComparision n = firstFound (map hasComparision (Children n))"
  by pat_completeness auto
termination
  by (relation "measure size") (auto split: option.splits simp: less_Suc_eq_le size_list_estimation')

function (sequential) isAbsent :: "Node \<Rightarrow> bool" where
  "isAbsent (Call f args p) =
     (if FuncName f = ''absent'' then True
      else list_ex isAbsent (Children (Call f args p)))"
| "isAbsent n = list_ex isAbsent (Children n)"
  by pat_completeness auto
termination
  by (relation "measure size") (auto split: option.splits simp: less_Suc_eq_le size_list_estimation')

text \<open>
  The rule file side: a parsed query is a tree of \<open>PromQLNode\<close>, each holding the parser's
  node and the wrapped children. An alerting rule carries its expression with the text,
  the line range and either a syntax error or the parsed query; \<open>Query\<close> is read only
  when \<open>SyntaxError\<close> is \<open>None\<close>.
\<close>

datatype PromQLNode = PromQLNode (NodeOf: Node) (ChildrenOf: "PromQLNode list")

fun hasAbsent :: "PromQLNode \<Rightarrow> bool" where
  "hasAbsent (PromQLNode n children) =
     (if isAbsent n then True else list_ex hasAbsent children)"

record LineRange =
  First :: int
  Last :: int

record PromQLExpr =
  Value :: string
  Lines :: LineRange
  SyntaxError :: "string option"
  Query :: PromQLNode

record AlertingRuleT =
  Expr :: PromQLExpr

record Rule =
  AlertingRule :: "AlertingRuleT option"

datatype Severity = Information | Warning | Bug | Fatal

record Problem =
  ProblemFragment :: string
  ProblemLines :: LineRange
  Reporter :: string
  Text :: string
  Severity :: Severity

definition ComparisonCheckName :: string where
  "ComparisonCheckName = ''alerts/comparison''"

fun rewriteSeverity :: "Severity \<Rightarrow> Node list \<Rightarrow> Severity" where
  "rewriteSeverity s [] = s"
| "rewriteSeverity s (Call f args p # nodes) =
     (if FuncName f = ''vector'' then Bug else rewriteSeverity s nodes)"
| "rewriteSeverity s (n # nodes) = rewriteSeverity s nodes"

definition orText :: string where
  "orText = ''alert query uses 'or' operator with one side of the query that will always return a result, this alert will always fire''"

definition boolText :: string where
  "boolText = ''alert query uses bool modifier for comparison, this means it will always return a result and the alert will always fire''"

definition noConditionText :: string where
  "noConditionText = ''alert query doesn't have any condition, it will always fire if the metric exists''"

definition mkProblem :: "AlertingRuleT \<Rightarrow> string \<Rightarrow> Severity \<Rightarrow> Problem" where
  "mkProblem ar txt sev =
     \<lparr>ProblemFragment = Value (Expr ar), ProblemLines = Lines (Expr ar),
      Reporter = ComparisonCheckName, Text = txt, Severity = sev\<rparr>"

text \<open>
  The three parts of \<open>Check\<close> after the two guards. \<open>HasOuterBinaryExpr\<close> lives in a
  file of the repository that is not part of the sources at hand, so \<open>Check\<close> takes it as
  the parameter \<open>outer\<close>; it returns a binary expression or nothing.
\<close>

definition checkOr :: "AlertingRuleT \<Rightarrow> Node option \<Rightarrow> Problem list" where
  "checkOr ar found =
     (case found of
        Some (BinaryExpr op l r vm rb) \<Rightarrow>
          if op = LOR then
            (if (hasComparision l = None \<or> hasComparision r = None)
                \<and> \<not> isAbsent l \<and> \<not> isAbsent r
             then [mkProblem ar orText (rewriteSeverity Warning [l, r])]
             else [])
          else []
      | _ \<Rightarrow> [])"

definition checkBool :: "AlertingRuleT \<Rightarrow> Node \<Rightarrow> Problem list" where
  "checkBool ar n =
     (case n of
        BinaryExpr op l r vm rb \<Rightarrow>
          if rb \<and> hasComparision l = None \<and> hasComparision r = None
          then [mkProblem ar boolText Bug]
          else []
      | _ \<Rightarrow> [])"

definition Check :: "(PromQLNode \<Rightarrow> Node option) \<Rightarrow> Rule \<Rightarrow> Problem list" where
  "Check outer rule =
     (case AlertingRule rule of
        None \<Rightarrow> []
      | Some ar \<Rightarrow>
          if SyntaxError (Expr ar) \<noteq> None then []
          else
            let expr = Query (Expr ar);
                problems = checkOr ar (outer expr)
            in (case hasComparision (NodeOf expr) of
                  Some n \<Rightarrow> problems @ checkBool ar n
                | None \<Rightarrow>
                    if hasAbsent expr then problems
                    else problems @ [mkProblem ar noConditionText Warning]))"

text \<open>
  Modelled from the spec: \<open>HasOuterBinaryExpr\<close>, whose file is not among the sources.
  The spec's words are: returns the binary expression at the outermost level, skipping
  \<open>Paren\<close> and \<open>Unary\<close> wrappers.
\<close>

fun outerBinary :: "Node \<Rightarrow> Node option" where
  "outerBinary (BinaryExpr op l r vm rb) = Some (BinaryExpr op l r vm rb)"
| "outerBinary (ParenExpr e p) = outerBinary e"
| "outerBinary (UnaryExpr op e sp) = outerBinary e"
| "outerBinary n = None"

definition HasOuterBinaryExpr :: "PromQLNode \<Rightarrow> Node option" where
  "HasOuterBinaryExpr expr = outerBinary (NodeOf expr)"

section \<open>The label-flow analyser\<close>

subsection \<open>Sources, errors and slices\<close>

datatype SourceType =
  UnknownSource | NumberSource | StringSource | SelectorSource | FuncSource | AggregateSource

record ExcludedLabel =
  Reason :: string
  Fragment :: string

text \<open>
  A \<open>Source\<close> is modelled as a value: its slices are lists and its map of reasons is a
  map. \<open>CallRef\<close> is the field \<open>Call\<close>, holding the call node. Where the code reads a
  slice while it shifts the same backing array (the loop over the guaranteed labels in
  \<open>parseAggregation\<close>) or writes through a slice that copies of one source share (the
  returned numbers in \<open>parseBinOps\<close>), the array is modelled explicitly. An array that
  two sources returned by an inner binary expression still share is not followed into
  the enclosing expression; only arithmetic on returned numbers can tell the difference.
\<close>

record Source =
  Selectors :: "VectorSelectorT list"
  CallRef :: "Node option"
  ExcludeReason :: "string \<rightharpoonup> ExcludedLabel"
  Operation :: string
  Returns :: ValueType
  ReturnedNumbers :: "float64 list"
  IncludedLabels :: "string list"
  ExcludedLabels :: "string list"
  GuaranteedLabels :: "string list"
  Type :: SourceType
  FixedLabels :: bool
  IsDead :: bool
  AlwaysReturns :: bool

definition zeroSource :: Source where
  "zeroSource =
     \<lparr>Selectors = [], CallRef = None, ExcludeReason = Map.empty, Operation = [],
      Returns = ValueTypeUnset, ReturnedNumbers = [], IncludedLabels = [],
      ExcludedLabels = [], GuaranteedLabels = [], Type = UnknownSource,
      FixedLabels = False, IsDead = False, AlwaysReturns = False\<rparr>"

text \<open>The run-time panics of the code: each is a result of the model.\<close>

datatype error = SliceBoundsOutOfRange | IndexOutOfRange | InterfaceConversion

definition bindE :: "error + 'a \<Rightarrow> ('a \<Rightarrow> error + 'b) \<Rightarrow> error + 'b" where
  "bindE r f = (case r of Inl e \<Rightarrow> Inl e | Inr x \<Rightarrow> f x)"

fun mapE :: "('a \<Rightarrow> error + 'b) \<Rightarrow> 'a list \<Rightarrow> error + 'b list" where
  "mapE f [] = Inr []"
| "mapE f (x # xs) = bindE (f x) (\<lambda>y. bindE (mapE f xs) (\<lambda>ys. Inr (y # ys)))"

fun Index :: "string list \<Rightarrow> string \<Rightarrow> nat option" where
  "Index [] v = None"
| "Index (x # xs) v = (if x = v then Some 0 else map_option Suc (Index xs v))"

definition Delete :: "string list \<Rightarrow> nat \<Rightarrow> string list" where
  "Delete sl idx = take idx sl @ drop (Suc idx) sl"

fun removeFromSlice :: "string list \<Rightarrow> string list \<Rightarrow> string list" where
  "removeFromSlice sl [] = sl"
| "removeFromSlice sl (v # vs) =
     (case Index sl v of
        None \<Rightarrow> removeFromSlice sl vs
      | Some idx \<Rightarrow> if length sl = 1 then [] else removeFromSlice (Delete sl idx) vs)"

fun appendToSlice :: "string list \<Rightarrow> string list \<Rightarrow> string list" where
  "appendToSlice dst [] = dst"
| "appendToSlice dst (v # vs) =
     (if v \<in> set dst then appendToSlice dst vs else appendToSlice (dst @ [v]) vs)"

text \<open>
  Loops that call \<open>removeFromSlice\<close> or \<open>appendToSlice\<close> with one name in each round.
\<close>

fun removeEach :: "string list \<Rightarrow> string list \<Rightarrow> string list" where
  "removeEach sl [] = sl"
| "removeEach sl (name # names) = removeEach (removeFromSlice sl [name]) names"

fun appendEach :: "string list \<Rightarrow> string list \<Rightarrow> string list" where
  "appendEach dst [] = dst"
| "appendEach dst (name # names) = appendEach (appendToSlice dst [name]) names"

definition setInMap ::
  "(string \<rightharpoonup> ExcludedLabel) \<Rightarrow> string \<Rightarrow> ExcludedLabel \<Rightarrow> (string \<rightharpoonup> ExcludedLabel)" where
  "setInMap dst key val = dst(key \<mapsto> val)"

fun deleteKeys :: "string list \<Rightarrow> (string \<rightharpoonup> ExcludedLabel) \<Rightarrow> (string \<rightharpoonup> ExcludedLabel)" where
  "deleteKeys [] m = m"
| "deleteKeys (name # names) m = deleteKeys names (m(name := None))"

definition guaranteedLabelsMatches :: "MatchType list" where
  "guaranteedLabelsMatches = [MatchEqual, MatchRegexp]"

text \<open>
  \<open>labelsFromSelectors\<close>: the first loop collects the names and counts the matchers per
  name; the second loop ranges over the map of counts, whose order Go leaves open, and is
  modelled in the order in which the keys were inserted.
\<close>

fun countMatchers ::
  "MatchType list \<Rightarrow> Matcher list \<Rightarrow> string list \<times> (string \<rightharpoonup> nat)
     \<Rightarrow> string list \<times> (string \<rightharpoonup> nat)" where
  "countMatchers matches [] st = st"
| "countMatchers matches (lm # lms) (names, nameCount) =
     (if MName lm = MetricName then countMatchers matches lms (names, nameCount)
      else if MType lm \<notin> set matches then countMatchers matches lms (names, nameCount)
      else countMatchers matches lms
             (appendToSlice names [MName lm],
              nameCount(MName lm \<mapsto>
                (case nameCount (MName lm) of None \<Rightarrow> 0 | Some c \<Rightarrow> c) + 1)))"

fun countSelectors ::
  "MatchType list \<Rightarrow> VectorSelectorT list \<Rightarrow> string list \<times> (string \<rightharpoonup> nat)
     \<Rightarrow> string list \<times> (string \<rightharpoonup> nat)" where
  "countSelectors matches [] st = st"
| "countSelectors matches (selector # selectors) st =
     countSelectors matches selectors (countMatchers matches (LabelMatchers selector) st)"

fun removeMiscounted ::
  "nat \<Rightarrow> (string \<rightharpoonup> nat) \<Rightarrow> string list \<Rightarrow> string list \<Rightarrow> string list" where
  "removeMiscounted n nameCount [] names = names"
| "removeMiscounted n nameCount (name # keys) names =
     (if nameCount name \<noteq> Some n
      then removeMiscounted n nameCount keys (removeFromSlice names [name])
      else removeMiscounted n nameCount keys names)"

definition labelsFromSelectors :: "MatchType list \<Rightarrow> VectorSelectorT list \<Rightarrow> string list" where
  "labelsFromSelectors matches selectors =
     (case countSelectors matches selectors ([], Map.empty) of
        (names, nameCount) \<Rightarrow> removeMiscounted (length selectors) nameCount names names)"

definition getQueryFragment :: "string \<Rightarrow> PositionRange \<Rightarrow> error + string" where
  "getQueryFragment expr pos =
     (if 0 \<le> Start pos \<and> Start pos \<le> End pos \<and> End pos \<le> int (length expr)
      then Inr (take (nat (End pos - Start pos)) (drop (nat (Start pos)) expr))
      else Inl SliceBoundsOutOfRange)"

fun Join :: "string list \<Rightarrow> string \<Rightarrow> string" where
  "Join [] sep = []"
| "Join [x] sep = x"
| "Join (x # y # ys) sep = x @ sep @ Join (y # ys) sep"

text \<open>
  A loop that stores the same kind of reason under every name of a list; the query
  fragment is sliced anew in every round, so a bad position range panics only when the
  list is not empty.
\<close>

fun setReasons ::
  "string \<Rightarrow> PositionRange \<Rightarrow> string \<Rightarrow> string list \<Rightarrow> (string \<rightharpoonup> ExcludedLabel)
     \<Rightarrow> error + (string \<rightharpoonup> ExcludedLabel)" where
  "setReasons expr pos reason [] m = Inr m"
| "setReasons expr pos reason (name # names) m =
     bindE (getQueryFragment expr pos)
       (\<lambda>frag. setReasons expr pos reason names
                  (setInMap m name \<lparr>Reason = reason, Fragment = frag\<rparr>))"

subsection \<open>Aggregations\<close>

text \<open>
  The loop \<open>for _, name := range s.GuaranteedLabels\<close> of \<open>parseAggregation\<close> reads the
  backing array of the slice it ranges over, round by round, while \<open>removeFromSlice\<close>
  shifts that same array: \<open>slices.Delete\<close> moves the tail one place to the left and (from
  Go 1.22 on) zeroes the slot it frees. The state is the array, of the length the slice had when the loop
  began, and the current slice: \<open>Some m\<close> for the first \<open>m\<close> slots of the array, \<open>None\<close>
  once \<open>removeFromSlice\<close> has returned \<open>nil\<close>.
\<close>

definition DeleteInPlace :: "string list \<Rightarrow> nat \<Rightarrow> nat \<Rightarrow> string list" where
  "DeleteInPlace arr m idx =
     take idx arr @ take (m - Suc idx) (drop (Suc idx) arr) @ [[]] @ drop m arr"

fun dropUngrouped ::
  "string list \<Rightarrow> nat \<Rightarrow> string list \<times> nat option \<Rightarrow> string list \<times> nat option" where
  "dropUngrouped grouping i (arr, cur) =
     (let name = arr ! i in
      if name \<in> set grouping then (arr, cur)
      else (case cur of
              None \<Rightarrow> (arr, None)
            | Some m \<Rightarrow>
                (case Index (take m arr) name of
                   None \<Rightarrow> (arr, Some m)
                 | Some idx \<Rightarrow>
                     if m = 1 then (arr, None)
                     else (DeleteInPlace arr m idx, Some (m - 1)))))"

definition keepGrouped :: "string list \<Rightarrow> string list \<Rightarrow> string list" where
  "keepGrouped grouping guaranteed =
     (case fold (dropUngrouped grouping) [0..<length guaranteed]
             (guaranteed, Some (length guaranteed)) of
        (arr, None) \<Rightarrow> []
      | (arr, Some m) \<Rightarrow> take m arr)"

definition withoutReason :: "string list \<Rightarrow> string" where
  "withoutReason grouping =
     ''Query is using aggregation with `without('' @ Join grouping '', '' @
     '')`, all labels included inside `without(...)` will be removed from the results.''"

definition byReason :: "string list \<Rightarrow> string" where
  "byReason grouping =
     ''Query is using aggregation with `by('' @ Join grouping '', '' @
     '')`, only labels included inside `by(...)` will be present on the results.''"

text \<open>The body of the loop of \<open>parseAggregation\<close>, for one source of the inner expression.\<close>

definition aggregateSource ::
  "string \<Rightarrow> string list \<Rightarrow> bool \<Rightarrow> PositionRange \<Rightarrow> Source \<Rightarrow> error + Source" where
  "aggregateSource expr grouping without pos s =
     bindE
       (if without then
          bindE (setReasons expr pos (withoutReason grouping) grouping (ExcludeReason s))
            (\<lambda>reasons. Inr (s\<lparr>ExcludedLabels := appendToSlice (ExcludedLabels s) grouping,
                               IncludedLabels := removeFromSlice (IncludedLabels s) grouping,
                               GuaranteedLabels := removeFromSlice (GuaranteedLabels s) grouping,
                               ExcludeReason := reasons\<rparr>))
        else if length grouping = 0 then
          bindE (getQueryFragment expr pos)
            (\<lambda>frag. Inr (s\<lparr>IncludedLabels := [],
                            GuaranteedLabels := [],
                            ExcludeReason := setInMap (ExcludeReason s) []
                              \<lparr>Reason = ''Query is using aggregation that removes all labels.'',
                               Fragment = frag\<rparr>,
                            FixedLabels := True\<rparr>))
        else
          bindE
            (if \<not> FixedLabels s then
               bindE (getQueryFragment expr pos)
                 (\<lambda>frag. Inr (s\<lparr>IncludedLabels := appendToSlice (IncludedLabels s) grouping,
                                 ExcludedLabels := removeEach (ExcludedLabels s) grouping,
                                 ExcludeReason := setInMap (ExcludeReason s) []
                                   \<lparr>Reason = byReason grouping, Fragment = frag\<rparr>\<rparr>))
             else Inr s)
            (\<lambda>s'. Inr (s'\<lparr>GuaranteedLabels := keepGrouped grouping (GuaranteedLabels s'),
                          FixedLabels := True\<rparr>)))
       (\<lambda>s'. Inr (s'\<lparr>Type := AggregateSource, Returns := ValueTypeVector, CallRef := None\<rparr>))"

definition parseAggregation ::
  "string \<Rightarrow> string list \<Rightarrow> bool \<Rightarrow> PositionRange \<Rightarrow> error + Source list
     \<Rightarrow> error + Source list" where
  "parseAggregation expr grouping without pos inner =
     bindE inner (mapE (aggregateSource expr grouping without pos))"

definition withOperation :: "string \<Rightarrow> error + Source list \<Rightarrow> error + Source list" where
  "withOperation name srcs = bindE srcs (\<lambda>ss. Inr (map (\<lambda>s. s\<lparr>Operation := name\<rparr>) ss))"

definition countValuesSource :: "Node option \<Rightarrow> Source \<Rightarrow> error + Source" where
  "countValuesSource param s =
     (case param of
        Some (StringLiteral val p) \<Rightarrow>
          Inr (s\<lparr>Operation := ''count_values'',
                 GuaranteedLabels := appendToSlice (GuaranteedLabels s) [val],
                 IncludedLabels := appendToSlice (IncludedLabels s) [val],
                 ExcludedLabels := removeFromSlice (ExcludedLabels s) [val],
                 ExcludeReason := deleteKeys [val] (ExcludeReason s)\<rparr>)
      | _ \<Rightarrow> Inl InterfaceConversion)"

definition tagSource :: "string \<Rightarrow> Source \<Rightarrow> Source" where
  "tagSource name s = s\<lparr>Type := AggregateSource, Operation := name\<rparr>"

text \<open>
  \<open>walkAggregation\<close> receives the walk of the inner expression as \<open>inner\<close>; the cases that
  do not walk it (operators outside the switch) do not look at it.
\<close>

fun walkAggregation ::
  "string \<Rightarrow> ItemType \<Rightarrow> Node option \<Rightarrow> string list \<Rightarrow> bool \<Rightarrow> PositionRange
     \<Rightarrow> error + Source list \<Rightarrow> error + Source list" where
  "walkAggregation expr ItemSUM param grouping without pos inner =
     withOperation ''sum'' (parseAggregation expr grouping without pos inner)"
| "walkAggregation expr ItemMIN param grouping without pos inner =
     withOperation ''min'' (parseAggregation expr grouping without pos inner)"
| "walkAggregation expr ItemMAX param grouping without pos inner =
     withOperation ''max'' (parseAggregation expr grouping without pos inner)"
| "walkAggregation expr AVG param grouping without pos inner =
     withOperation ''avg'' (parseAggregation expr grouping without pos inner)"
| "walkAggregation expr GROUP param grouping without pos inner =
     withOperation ''group'' (parseAggregation expr grouping without pos inner)"
| "walkAggregation expr STDDEV param grouping without pos inner =
     withOperation ''stddev'' (parseAggregation expr grouping without pos inner)"
| "walkAggregation expr STDVAR param grouping without pos inner =
     withOperation ''stdvar'' (parseAggregation expr grouping without pos inner)"
| "walkAggregation expr COUNT param grouping without pos inner =
     withOperation ''count'' (parseAggregation expr grouping without pos inner)"
| "walkAggregation expr COUNT_VALUES param grouping without pos inner =
     bindE (parseAggregation expr grouping without pos inner) (mapE (countValuesSource param))"
| "walkAggregation expr QUANTILE param grouping without pos inner =
     withOperation ''quantile'' (parseAggregation expr grouping without pos inner)"
| "walkAggregation expr TOPK param grouping without pos inner =
     bindE inner (\<lambda>ss. Inr (map (tagSource ''topk'') ss))"
| "walkAggregation expr BOTTOMK param grouping without pos inner =
     bindE inner (\<lambda>ss. Inr (map (tagSource ''bottomk'') ss))"
| "walkAggregation expr op param grouping without pos inner = Inr []"

subsection \<open>Function calls\<close>

text \<open>
  \<open>parseCall\<close> receives the walks of all arguments as \<open>walked\<close> and reads only those at
  the positions whose declared type is a vector or a matrix, in order.
\<close>

fun argSelectors ::
  "ValueType list \<Rightarrow> nat \<Rightarrow> (error + Source list) list \<Rightarrow> VectorSelectorT list
     \<Rightarrow> error + VectorSelectorT list" where
  "argSelectors argTypes i [] sels = Inr sels"
| "argSelectors argTypes i (w # walked) sels =
     (if i \<ge> length argTypes \<and> argTypes = [] then Inl IndexOutOfRange
      else
        let vt = (if i \<ge> length argTypes then argTypes ! (length argTypes - 1)
                  else argTypes ! i)
        in if vt = ValueTypeVector \<or> vt = ValueTypeMatrix
           then bindE w (\<lambda>srcs.
                  argSelectors argTypes (Suc i) walked (sels @ concat (map Selectors srcs)))
           else argSelectors argTypes (Suc i) walked sels)"

definition keepLabels :: "Source \<Rightarrow> Source" where
  "keepLabels s =
     s\<lparr>Returns := ValueTypeVector,
       GuaranteedLabels := appendToSlice (GuaranteedLabels s)
         (labelsFromSelectors guaranteedLabelsMatches (Selectors s))\<rparr>"

definition newline :: string where
  "newline = [CHR 0x0A]"

definition absentReason :: "string \<Rightarrow> string" where
  "absentReason name =
     ''The ['' @ name @ ''()](https://prometheus.io/docs/prometheus/latest/querying/functions/#'' @ name @
     '') function is used to check if provided query doesn't match any time series.'' @ newline @
     ''You will only get any results back if the metric selector you pass doesn't match anything.'' @ newline @
     ''Since there are no matching time series there are also no labels. If some time series is missing you cannot read its labels.'' @ newline @
     ''This means that the only labels you can get back from absent call are the ones you pass to it.'' @ newline @
     ''If you're hoping to get instance specific labels this way and alert when some target is down then that won't work, use the `up` metric instead.''"

definition noLabels :: "string \<Rightarrow> PositionRange \<Rightarrow> string \<Rightarrow> Source \<Rightarrow> error + Source" where
  "noLabels expr pos reason s =
     bindE (getQueryFragment expr pos)
       (\<lambda>frag. Inr (s\<lparr>IncludedLabels := [],
                       GuaranteedLabels := [],
                       FixedLabels := True,
                       AlwaysReturns := True,
                       ExcludeReason := setInMap (ExcludeReason s) []
                         \<lparr>Reason = reason, Fragment = frag\<rparr>\<rparr>))"

definition scalarReason :: "string \<Rightarrow> string" where
  "scalarReason name = ''Calling `'' @ name @ ''()` will return a scalar value with no labels.''"

definition transformNames :: "string list" where
  "transformNames =
     [''abs'', ''sgn'', ''acos'', ''acosh'', ''asin'', ''asinh'', ''atan'', ''atanh'', ''cos'',
      ''cosh'', ''sin'', ''sinh'', ''tan'', ''tanh'',
      ''ceil'', ''floor'', ''round'',
      ''changes'', ''resets'',
      ''clamp'', ''clamp_max'', ''clamp_min'']"

definition overTimeNames :: "string list" where
  "overTimeNames =
     [''avg_over_time'', ''count_over_time'', ''last_over_time'', ''max_over_time'',
      ''min_over_time'', ''present_over_time'', ''quantile_over_time'', ''stddev_over_time'',
      ''stdvar_over_time'', ''sum_over_time'']"

definition calendarNames :: "string list" where
  "calendarNames =
     [''days_in_month'', ''day_of_month'', ''day_of_week'', ''day_of_year'', ''hour'',
      ''minute'', ''month'', ''year'']"

definition mathNames :: "string list" where
  "mathNames =
     [''deg'', ''rad'', ''ln'', ''log10'', ''log2'', ''sqrt'', ''exp'',
      ''delta'', ''idelta'', ''increase'', ''deriv'', ''irate'', ''rate'',
      ''histogram_avg'', ''histogram_count'', ''histogram_sum'', ''histogram_stddev'',
      ''histogram_stdvar'', ''histogram_fraction'', ''histogram_quantile'',
      ''holt_winters'', ''predict_linear'']"

definition parseCall ::
  "string \<Rightarrow> Function \<Rightarrow> Node list \<Rightarrow> PositionRange \<Rightarrow> (error + Source list) list
     \<Rightarrow> error + Source" where
  "parseCall expr f args pos walked =
     bindE (argSelectors (ArgTypes f) 0 walked [])
       (\<lambda>sels.
          let name = FuncName f;
              s = zeroSource\<lparr>Type := FuncSource, Operation := name,
                              CallRef := Some (Call f args pos), Selectors := sels\<rparr>
          in
          if name \<in> set transformNames then Inr (keepLabels s)
          else if name = ''absent'' \<or> name = ''absent_over_time'' then
            bindE (getQueryFragment expr pos)
              (\<lambda>frag.
                 let names = labelsFromSelectors [MatchEqual] (Selectors s)
                 in Inr (s\<lparr>Returns := ValueTypeVector,
                            FixedLabels := True,
                            IncludedLabels := appendEach (IncludedLabels s) names,
                            GuaranteedLabels := appendEach (GuaranteedLabels s) names,
                            ExcludeReason := setInMap (ExcludeReason s) []
                              \<lparr>Reason = absentReason name, Fragment = frag\<rparr>\<rparr>))
          else if name \<in> set overTimeNames then Inr (keepLabels s)
          else if name \<in> set calendarNames then
            (if length args = 0 then
               noLabels expr pos
                 (''Calling `'' @ name @
                  ''()` with no arguments will return an empty time series with no labels.'')
                 (s\<lparr>Returns := ValueTypeVector\<rparr>)
             else Inr (keepLabels s))
          else if name \<in> set mathNames then Inr (keepLabels s)
          else if name = ''label_replace'' \<or> name = ''label_join'' then
            (if length args \<le> 1 then Inl IndexOutOfRange
             else (case args ! 1 of
                     StringLiteral val p \<Rightarrow>
                       Inr ((keepLabels s)\<lparr>GuaranteedLabels :=
                              appendToSlice (GuaranteedLabels (keepLabels s)) [val]\<rparr>)
                   | _ \<Rightarrow> Inl InterfaceConversion))
          else if name = ''pi'' then
            noLabels expr pos (scalarReason name) (s\<lparr>Returns := ValueTypeScalar\<rparr>)
          else if name = ''scalar'' then
            noLabels expr pos (scalarReason name) (s\<lparr>Returns := ValueTypeScalar\<rparr>)
          else if name = ''sort'' \<or> name = ''sort_desc'' then
            Inr (s\<lparr>Returns := ValueTypeVector\<rparr>)
          else if name = ''time'' then
            noLabels expr pos (scalarReason name) (s\<lparr>Returns := ValueTypeScalar\<rparr>)
          else if name = ''timestamp'' then Inr (keepLabels s)
          else if name = ''vector'' then
            (if length args = 0 then Inl IndexOutOfRange
             else
               noLabels expr pos
                 (''Calling `'' @ name @ ''()` will return a vector value with no labels.'')
                 (s\<lparr>Returns := ValueTypeVector,
                    ReturnedNumbers :=
                      (case args ! 0 of
                         NumberLiteral v p \<Rightarrow> ReturnedNumbers s @ [v]
                       | _ \<Rightarrow> ReturnedNumbers s)\<rparr>))
          else Inr (s\<lparr>Returns := ValueTypeNone, CallRef := None\<rparr>))"

subsection \<open>Binary expressions\<close>

fun calculateStaticReturn ::
  "FloatArith \<Rightarrow> float64 \<Rightarrow> float64 \<Rightarrow> ItemType \<Rightarrow> bool \<Rightarrow> float64 \<times> bool" where
  "calculateStaticReturn fa lv rv EQLC isDead =
     (if \<not> float_eq lv rv then (lv, True) else (lv, isDead))"
| "calculateStaticReturn fa lv rv NEQ isDead =
     (if float_eq lv rv then (lv, True) else (lv, isDead))"
| "calculateStaticReturn fa lv rv LTE isDead =
     (if float_gt lv rv then (lv, True) else (lv, isDead))"
| "calculateStaticReturn fa lv rv LSS isDead =
     (if float_ge lv rv then (lv, True) else (lv, isDead))"
| "calculateStaticReturn fa lv rv GTE isDead =
     (if float_lt lv rv then (lv, True) else (lv, isDead))"
| "calculateStaticReturn fa lv rv GTR isDead =
     (if float_le lv rv then (lv, True) else (lv, isDead))"
| "calculateStaticReturn fa lv rv ADD isDead = (f_add fa lv rv, isDead)"
| "calculateStaticReturn fa lv rv SUB isDead = (f_sub fa lv rv, isDead)"
| "calculateStaticReturn fa lv rv MUL isDead = (f_mul fa lv rv, isDead)"
| "calculateStaticReturn fa lv rv DIV isDead = (f_div fa lv rv, isDead)"
| "calculateStaticReturn fa lv rv MOD isDead = (f_mod fa lv rv, isDead)"
| "calculateStaticReturn fa lv rv POW isDead = (f_pow fa lv rv, isDead)"
| "calculateStaticReturn fa lv rv op isDead = (lv, isDead)"

text \<open>
  Without vector matching every source of the left side meets every source of the right
  side. The loop variable \<open>ls\<close> keeps what a round wrote (\<open>IsDead\<close> and the returned
  numbers) for the next round, and every copy of \<open>ls\<close> that a round appends shares the
  array of returned numbers with it: \<open>pairLoop\<close> records what each round appends and
  returns \<open>ls\<close> as the last round left it, and \<open>emit\<close> gives each appended copy the numbers
  of that array.
\<close>

fun staticInner ::
  "FloatArith \<Rightarrow> ItemType \<Rightarrow> float64 \<Rightarrow> float64 list \<Rightarrow> float64 \<times> bool
     \<Rightarrow> float64 \<times> bool" where
  "staticInner fa op lv [] st = st"
| "staticInner fa op lv (rv # rvs) (cur, isDead) =
     staticInner fa op lv rvs (calculateStaticReturn fa lv rv op isDead)"

fun staticOuter ::
  "FloatArith \<Rightarrow> ItemType \<Rightarrow> float64 list \<Rightarrow> float64 list \<Rightarrow> bool
     \<Rightarrow> float64 list \<times> bool" where
  "staticOuter fa op [] rvs isDead = ([], isDead)"
| "staticOuter fa op (lv # lvs) rvs isDead =
     (case staticInner fa op lv rvs (lv, isDead) of
        (v, d) \<Rightarrow> (case staticOuter fa op lvs rvs d of (vs, d') \<Rightarrow> (v # vs, d')))"

datatype Emitted = EmitLHS bool | EmitRHS Source

fun pairLoop ::
  "FloatArith \<Rightarrow> ItemType \<Rightarrow> Source \<Rightarrow> Source list \<Rightarrow> Emitted list \<times> Source" where
  "pairLoop fa op ls [] = ([], ls)"
| "pairLoop fa op ls (rs # rhs) =
     (if AlwaysReturns ls \<and> AlwaysReturns rs then
        (case staticOuter fa op (ReturnedNumbers ls) (ReturnedNumbers rs) (IsDead ls) of
           (nums, dead) \<Rightarrow>
             (case pairLoop fa op (ls\<lparr>ReturnedNumbers := nums, IsDead := dead\<rparr>) rhs of
                (out, final) \<Rightarrow> (EmitLHS dead # out, final)))
      else if Returns ls = ValueTypeVector \<or> Returns ls = ValueTypeMatrix then
        (case pairLoop fa op ls rhs of (out, final) \<Rightarrow> (EmitLHS (IsDead ls) # out, final))
      else if Returns rs = ValueTypeVector \<or> Returns rs = ValueTypeMatrix then
        (case pairLoop fa op ls rhs of (out, final) \<Rightarrow> (EmitRHS rs # out, final))
      else pairLoop fa op ls rhs)"

fun emit :: "Source \<Rightarrow> Emitted \<Rightarrow> Source" where
  "emit final (EmitLHS isDead) = final\<lparr>IsDead := isDead\<rparr>"
| "emit final (EmitRHS rs) = rs"

definition pairSources :: "FloatArith \<Rightarrow> ItemType \<Rightarrow> Source list \<Rightarrow> Source \<Rightarrow> Source list" where
  "pairSources fa op rhs ls = (case pairLoop fa op ls rhs of (out, final) \<Rightarrow> map (emit final) out)"

definition defaultOperation :: "VectorMatchCardinality \<Rightarrow> Source \<Rightarrow> Source" where
  "defaultOperation c s = (if Operation s = [] then s\<lparr>Operation := CardString c\<rparr> else s)"

definition onReason :: "VectorMatching \<Rightarrow> string" where
  "onReason vm =
     ''Query is using '' @ CardString (Card vm) @ '' vector matching with `on('' @
     Join (MatchingLabels vm) '', '' @
     '')`, only labels included inside `on(...)` will be present on the results.''"

definition ignoringReason :: "VectorMatching \<Rightarrow> string" where
  "ignoringReason vm =
     ''Query is using '' @ CardString (Card vm) @ '' vector matching with `ignoring('' @
     Join (MatchingLabels vm) '', '' @
     '')`, all labels included inside `ignoring(...)` will be removed on the results.''"

definition oneToOneSource ::
  "string \<Rightarrow> VectorMatching \<Rightarrow> PositionRange \<Rightarrow> Source \<Rightarrow> error + Source" where
  "oneToOneSource expr vm pos s =
     bindE
       (if On vm then
          bindE (getQueryFragment expr pos)
            (\<lambda>frag. Inr (s\<lparr>FixedLabels := True,
                            IncludedLabels := appendToSlice (IncludedLabels s) (MatchingLabels vm),
                            ExcludedLabels := removeFromSlice (ExcludedLabels s) (MatchingLabels vm),
                            ExcludeReason :=
                              setInMap (deleteKeys (MatchingLabels vm) (ExcludeReason s)) []
                                \<lparr>Reason = onReason vm, Fragment = frag\<rparr>\<rparr>))
        else
          bindE (setReasons expr pos (ignoringReason vm) (MatchingLabels vm) (ExcludeReason s))
            (\<lambda>reasons.
               Inr (s\<lparr>IncludedLabels := removeFromSlice (IncludedLabels s) (MatchingLabels vm),
                      GuaranteedLabels := removeFromSlice (GuaranteedLabels s) (MatchingLabels vm),
                      ExcludedLabels := appendToSlice (ExcludedLabels s) (MatchingLabels vm),
                      ExcludeReason := reasons\<rparr>)))
       (\<lambda>s'. Inr (defaultOperation (Card vm) s'))"

definition includeOn :: "VectorMatching \<Rightarrow> Source \<Rightarrow> Source" where
  "includeOn vm s =
     (if On vm then
        s\<lparr>IncludedLabels := appendToSlice (IncludedLabels s) (MatchingLabels vm),
          ExcludeReason := deleteKeys (MatchingLabels vm) (ExcludeReason s)\<rparr>
      else s)"

definition groupSource :: "VectorMatching \<Rightarrow> Source \<Rightarrow> Source" where
  "groupSource vm s =
     (let s1 = s\<lparr>IncludedLabels := appendToSlice (IncludedLabels s) (Include vm)\<rparr>;
          s2 = includeOn vm s1;
          s3 = s2\<lparr>ExcludedLabels := removeFromSlice (ExcludedLabels s2) (Include vm),
                  ExcludeReason := deleteKeys (Include vm) (ExcludeReason s2)\<rparr>
      in defaultOperation (Card vm) s3)"

definition manyToManyLHS :: "VectorMatching \<Rightarrow> Source \<Rightarrow> Source" where
  "manyToManyLHS vm s = defaultOperation (Card vm) (includeOn vm s)"

definition manyToManyRHS :: "VectorMatching \<Rightarrow> bool \<Rightarrow> Source \<Rightarrow> Source" where
  "manyToManyRHS vm lhsCanBeEmpty s =
     (let s1 = defaultOperation (Card vm) s
      in if \<not> lhsCanBeEmpty then s1\<lparr>IsDead := True\<rparr> else s1)"

text \<open>
  \<open>parseBinOps\<close> receives the walks of both sides as \<open>wl\<close> and \<open>wr\<close> and reads them as the
  code walks the sides: both without vector matching, the left side for one-to-one and
  many-to-one, the right side for one-to-many, and for many-to-many the left side and
  then, for \<open>or\<close> only, the right side.
\<close>

definition parseBinOps ::
  "FloatArith \<Rightarrow> string \<Rightarrow> ItemType \<Rightarrow> Node \<Rightarrow> Node \<Rightarrow> VectorMatching option
     \<Rightarrow> error + Source list \<Rightarrow> error + Source list \<Rightarrow> error + Source list" where
  "parseBinOps fa expr op l r vmo wl wr =
     (case vmo of
        None \<Rightarrow>
          bindE wl (\<lambda>lhs. bindE wr (\<lambda>rhs. Inr (concat (map (pairSources fa op rhs) lhs))))
      | Some vm \<Rightarrow>
          (case Card vm of
             CardOneToOne \<Rightarrow>
               bindE wl (mapE (oneToOneSource expr vm
                 \<lparr>Start = Start (PositionRangeOf l), End = End (PositionRangeOf r)\<rparr>))
           | CardOneToMany \<Rightarrow> bindE wr (\<lambda>rhs. Inr (map (groupSource vm) rhs))
           | CardManyToOne \<Rightarrow> bindE wl (\<lambda>lhs. Inr (map (groupSource vm) lhs))
           | CardManyToMany \<Rightarrow>
               bindE wl (\<lambda>lhs.
                 let lhsCanBeEmpty = list_ex (\<lambda>s. \<not> AlwaysReturns s) lhs
                 in if op = LOR
                    then bindE wr (\<lambda>rhs.
                           Inr (map (manyToManyLHS vm) lhs
                                @ map (manyToManyRHS vm lhsCanBeEmpty) rhs))
                    else Inr (map (manyToManyLHS vm) lhs))))"

subsection \<open>The walk\<close>

fun walkNode :: "FloatArith \<Rightarrow> string \<Rightarrow> Node \<Rightarrow> error + Source list" where
  "walkNode fa expr (AggregateExpr op e param grouping without pos) =
     walkAggregation expr op param grouping without pos (walkNode fa expr e)"
| "walkNode fa expr (BinaryExpr op l r vm rb) =
     parseBinOps fa expr op l r vm (walkNode fa expr l) (walkNode fa expr r)"
| "walkNode fa expr (Call f args pos) =
     bindE (parseCall expr f args pos (map (walkNode fa expr) args)) (\<lambda>s. Inr [s])"
| "walkNode fa expr (MatrixSelector vs ep) = walkNode fa expr vs"
| "walkNode fa expr (SubqueryExpr e ep) = walkNode fa expr e"
| "walkNode fa expr (NumberLiteral v pos) =
     bindE (getQueryFragment expr pos)
       (\<lambda>frag. Inr [zeroSource\<lparr>Type := NumberSource,
                                Returns := ValueTypeScalar,
                                ReturnedNumbers := [v],
                                IncludedLabels := [],
                                GuaranteedLabels := [],
                                FixedLabels := True,
                                AlwaysReturns := True,
                                ExcludeReason := setInMap Map.empty []
                                  \<lparr>Reason = ''This returns a number value with no labels.'',
                                   Fragment = frag\<rparr>\<rparr>])"
| "walkNode fa expr (ParenExpr e pos) = walkNode fa expr e"
| "walkNode fa expr (StringLiteral v pos) =
     bindE (getQueryFragment expr pos)
       (\<lambda>frag. Inr [zeroSource\<lparr>Type := StringSource,
                                Returns := ValueTypeString,
                                IncludedLabels := [],
                                GuaranteedLabels := [],
                                FixedLabels := True,
                                AlwaysReturns := True,
                                ExcludeReason := setInMap Map.empty []
                                  \<lparr>Reason = ''This returns a string value with no labels.'',
                                   Fragment = frag\<rparr>\<rparr>])"
| "walkNode fa expr (UnaryExpr op e sp) = walkNode fa expr e"
| "walkNode fa expr (StepInvariantExpr e) = Inr []"
| "walkNode fa expr (VectorSelector n) =
     Inr [zeroSource\<lparr>Type := SelectorSource,
                     Returns := ValueTypeVector,
                     Selectors := [n],
                     GuaranteedLabels :=
                       appendToSlice [] (labelsFromSelectors guaranteedLabelsMatches [n])\<rparr>]"

definition LabelsSource :: "FloatArith \<Rightarrow> string \<Rightarrow> Node \<Rightarrow> error + Source list" where
  "LabelsSource fa expr node = walkNode fa expr node"

section \<open>Example inputs\<close>

text \<open>
  Concrete rules and expressions at which the theorems below are instantiated. A vector
  selector \<open>foo{a="1"}\<close> carries the matcher of its labels followed by the matcher of the
  metric name, as the parser builds it.
\<close>

definition leftArith :: FloatArith where
  "leftArith =
     \<lparr>f_add = (\<lambda>a b. a), f_sub = (\<lambda>a b. a), f_mul = (\<lambda>a b. a),
      f_div = (\<lambda>a b. a), f_mod = (\<lambda>a b. a), f_pow = (\<lambda>a b. a)\<rparr>"

definition pos :: "int \<Rightarrow> int \<Rightarrow> PositionRange" where
  "pos a b = \<lparr>Start = a, End = b\<rparr>"

definition selector :: "string \<Rightarrow> (string \<times> string) list \<Rightarrow> PositionRange \<Rightarrow> Node" where
  "selector name ms p =
     VectorSelector
       \<lparr>Name = name,
        LabelMatchers = map (\<lambda>(k, v). Matcher MatchEqual k v) ms
                        @ [Matcher MatchEqual MetricName name],
        PosRange = p\<rparr>"

definition alertingRule :: "string \<Rightarrow> PromQLNode \<Rightarrow> Rule" where
  "alertingRule txt q =
     \<lparr>AlertingRule = Some \<lparr>Expr = \<lparr>Value = txt, Lines = \<lparr>First = 2, Last = 2\<rparr>,
                                     SyntaxError = None, Query = q\<rparr>\<rparr>\<rparr>"

definition recordingRuleEx :: Rule where
  "recordingRuleEx = \<lparr>AlertingRule = None\<rparr>"

definition syntaxErrorRuleEx :: Rule where
  "syntaxErrorRuleEx =
     \<lparr>AlertingRule = Some \<lparr>Expr = \<lparr>Value = ''up =='', Lines = \<lparr>First = 2, Last = 2\<rparr>,
                                     SyntaxError = Some ''unexpected end of input'',
                                     Query = PromQLNode (StringLiteral [] (pos 0 0)) []\<rparr>\<rparr>\<rparr>"

text \<open>\<open>absent_over_time(foo[5m]) or bar\<close>\<close>

definition absentOverTimeCall :: Node where
  "absentOverTimeCall =
     Call \<lparr>FuncName = ''absent_over_time'', ArgTypes = [ValueTypeMatrix]\<rparr>
       [MatrixSelector (selector ''foo'' [] (pos 17 20)) 24] (pos 0 25)"

definition absentOverTimeOrBar :: Node where
  "absentOverTimeOrBar =
     BinaryExpr LOR absentOverTimeCall (selector ''bar'' [] (pos 29 32))
       (Some \<lparr>Card = CardManyToMany, MatchingLabels = [], On = False, Include = []\<rparr>) False"

definition absentOverTimeRule :: Rule where
  "absentOverTimeRule =
     alertingRule ''absent_over_time(foo[5m]) or bar''
       (PromQLNode absentOverTimeOrBar
          [PromQLNode absentOverTimeCall
             [PromQLNode (MatrixSelector (selector ''foo'' [] (pos 17 20)) 24)
                [PromQLNode (selector ''foo'' [] (pos 17 20)) []]],
           PromQLNode (selector ''bar'' [] (pos 29 32)) []])"







definition vector1 :: Node where
  "vector1 =
     Call \<lparr>FuncName = ''vector'', ArgTypes = [ValueTypeScalar]\<rparr>
       [NumberLiteral (Finite 1) (pos 13 14)] (pos 6 15)"

definition upOrVector1 :: Node where
  "upOrVector1 =
     BinaryExpr LOR (selector ''up'' [] (pos 0 2)) vector1
       (Some \<lparr>Card = CardManyToMany, MatchingLabels = [], On = False, Include = []\<rparr>) False"

definition upOrVector1Rule :: Rule where
  "upOrVector1Rule =
     alertingRule ''up or vector(1)''
       (PromQLNode upOrVector1
          [PromQLNode (selector ''up'' [] (pos 0 2)) [],
           PromQLNode vector1 [PromQLNode (NumberLiteral (Finite 1) (pos 13 14)) []]])"





text \<open>
  The words of the spec for constant folding: the predicate of each comparison operator.
\<close>

fun comparisonHolds :: "ItemType \<Rightarrow> float64 \<Rightarrow> float64 \<Rightarrow> bool" where
  "comparisonHolds EQLC lv rv = float_eq lv rv"
| "comparisonHolds NEQ lv rv = (\<not> float_eq lv rv)"
| "comparisonHolds LTE lv rv = float_le lv rv"
| "comparisonHolds LSS lv rv = float_lt lv rv"
| "comparisonHolds GTE lv rv = float_ge lv rv"
| "comparisonHolds GTR lv rv = float_gt lv rv"
| "comparisonHolds op lv rv = True"

text \<open>\<open>vector(NaN) <= 1\<close> and \<open>1 > bool 2\<close>\<close>

definition vectorNaNLte1 :: Node where
  "vectorNaNLte1 =
     BinaryExpr LTE
       (Call \<lparr>FuncName = ''vector'', ArgTypes = [ValueTypeScalar]\<rparr>
          [NumberLiteral NaN (pos 7 10)] (pos 0 11))
       (NumberLiteral (Finite 1) (pos 15 16)) None False"

text \<open>\<open>vector(1) == vector(2)\<close>, which the parser gives one-to-one vector matching\<close>

definition vector1EqVector2 :: Node where
  "vector1EqVector2 =
     BinaryExpr EQLC
       (Call \<lparr>FuncName = ''vector'', ArgTypes = [ValueTypeScalar]\<rparr>
          [NumberLiteral (Finite 1) (pos 7 8)] (pos 0 9))
       (Call \<lparr>FuncName = ''vector'', ArgTypes = [ValueTypeScalar]\<rparr>
          [NumberLiteral (Finite 2) (pos 20 21)] (pos 13 22))
       (Some \<lparr>Card = CardOneToOne, MatchingLabels = [], On = False, Include = []\<rparr>) False"

definition oneGtBool2 :: Node where
  "oneGtBool2 =
     BinaryExpr GTR (NumberLiteral (Finite 1) (pos 0 1)) (NumberLiteral (Finite 2) (pos 9 10))
       None True"

text \<open>
  The words of the spec for the label-preserving functions: the label names used in
  positive matchers (\<open>Equal\<close> or \<open>Regex\<close>) of a selector, the metric name left out, and
  their union over the selectors of a source.
\<close>

definition positiveNames :: "VectorSelectorT \<Rightarrow> string list" where
  "positiveNames sel =
     map MName (filter (\<lambda>lm. MName lm \<noteq> MetricName \<and> MType lm \<in> {MatchEqual, MatchRegexp})
                  (LabelMatchers sel))"

definition guaranteedIsUnion :: "Source \<Rightarrow> bool" where
  "guaranteedIsUnion s =
     (set (GuaranteedLabels s) = (\<Union>sel \<in> set (Selectors s). set (positiveNames sel)))"

text \<open>\<open>abs(foo{a="1"} or bar{b="2"})\<close> and \<open>rate(foo{job="x"}[5m])\<close>\<close>

definition absOfOr :: Node where
  "absOfOr =
     Call \<lparr>FuncName = ''abs'', ArgTypes = [ValueTypeVector]\<rparr>
       [BinaryExpr LOR (selector ''foo'' [(''a'', ''1'')] (pos 4 14))
          (selector ''bar'' [(''b'', ''2'')] (pos 18 28))
          (Some \<lparr>Card = CardManyToMany, MatchingLabels = [], On = False, Include = []\<rparr>) False]
       (pos 0 29)"

definition rateOfFoo :: Node where
  "rateOfFoo =
     Call \<lparr>FuncName = ''rate'', ArgTypes = [ValueTypeMatrix]\<rparr>
       [MatrixSelector (selector ''foo'' [(''job'', ''x'')] (pos 5 17)) 21] (pos 0 22)"

text \<open>
  \<open>sum by(a) (sum by(b) (foo))\<close>, \<open>sum by(c) (foo{a="1", b="2", c="3"})\<close>,
  \<open>sum by(b) (foo{a="1", b="2", c="3"})\<close> and \<open>count_values(("x"), foo)\<close>
\<close>

definition sumBySumBy :: Node where
  "sumBySumBy =
     AggregateExpr ItemSUM
       (AggregateExpr ItemSUM (selector ''foo'' [] (pos 22 25)) None [''b''] False (pos 11 26))
       None [''a''] False (pos 0 27)"

definition fooABC :: Node where
  "fooABC = selector ''foo'' [(''a'', ''1''), (''b'', ''2''), (''c'', ''3'')] (pos 11 35)"

definition sumByC :: Node where
  "sumByC = AggregateExpr ItemSUM fooABC None [''c''] False (pos 0 36)"

definition sumByB :: Node where
  "sumByB = AggregateExpr ItemSUM fooABC None [''b''] False (pos 0 36)"

definition countValuesParen :: Node where
  "countValuesParen =
     AggregateExpr COUNT_VALUES (selector ''foo'' [] (pos 20 23))
       (Some (ParenExpr (StringLiteral ''x'' (pos 14 17)) (pos 13 18))) [] False (pos 0 24)"

text \<open>\<open>sum without(a) (foo{a="1", b="2"})\<close>\<close>

definition sumWithoutA :: Node where
  "sumWithoutA =
     AggregateExpr ItemSUM (selector ''foo'' [(''a'', ''1''), (''b'', ''2'')] (pos 16 33))
       None [''a''] True (pos 0 34)"

section \<open>Notions used in the statements and proofs\<close>

text \<open>
  The functions that the spec lists as label-preserving transforms, by the cases of
  \<open>parseCall\<close> that handle them.
\<close>

definition labelPreservingNames :: "string list" where
  "labelPreservingNames = transformNames @ overTimeNames @ mathNames @ [''timestamp'']"

text \<open>
  The names that \<open>labelsFromSelectors\<close> collects from a list of matchers, and the counting
  of its first loop.
\<close>

definition qualNames :: "MatchType list \<Rightarrow> Matcher list \<Rightarrow> string list" where
  "qualNames matches lms =
     map MName (filter (\<lambda>lm. MName lm \<noteq> MetricName \<and> MType lm \<in> set matches) lms)"

definition bump :: "string list \<Rightarrow> (string \<rightharpoonup> nat) \<Rightarrow> (string \<rightharpoonup> nat)" where
  "bump qs cnt = fold (\<lambda>q c. c(q \<mapsto> (case c q of None \<Rightarrow> 0 | Some k \<Rightarrow> k) + 1)) qs cnt"

text \<open>
  The slice that a state of the loop over the guaranteed labels stands for, the bound
  that keeps it inside its array, and the relation between the slice before and after:
  nothing is added, a duplicate-free slice stays so, and what is in the grouping stays.
\<close>

definition sliceOf :: "string list \<times> nat option \<Rightarrow> string list" where
  "sliceOf st = (case st of (arr, None) \<Rightarrow> [] | (arr, Some m) \<Rightarrow> take m arr)"

definition sliceOk :: "string list \<times> nat option \<Rightarrow> bool" where
  "sliceOk st = (case st of (arr, None) \<Rightarrow> True | (arr, Some m) \<Rightarrow> m \<le> length arr)"

definition keptFrom :: "string list \<Rightarrow> string list \<Rightarrow> string list \<Rightarrow> bool" where
  "keptFrom grouping v v' =
     (set v' \<subseteq> set v \<and> (distinct v \<longrightarrow> distinct v') \<and> set v \<inter> set grouping \<subseteq> set v')"

text \<open>
  The slices on which the loop over the guaranteed labels skips nothing it should drop:
  no two neighbours are both outside the grouping. The invariant of the loop on such a
  slice \<open>g\<close>, before round \<open>i\<close>: either the loop is about to read \<open>g ! j\<close>, the slice
  holding the labels of the grouping among the first \<open>j\<close> of \<open>g\<close> followed by the rest of
  \<open>g\<close>, or all of \<open>g\<close> has been dealt with and the slice holds the labels of the
  grouping; the slots of the array behind the slice are zeroed.
\<close>

fun noTwoUngroupedAdjacent :: "string list \<Rightarrow> string list \<Rightarrow> bool" where
  "noTwoUngroupedAdjacent grouping [] = True"
| "noTwoUngroupedAdjacent grouping [x] = True"
| "noTwoUngroupedAdjacent grouping (x # y # ys) =
     ((x \<in> set grouping \<or> y \<in> set grouping) \<and> noTwoUngroupedAdjacent grouping (y # ys))"

definition groupedPrefix :: "string list \<Rightarrow> string list \<Rightarrow> nat \<Rightarrow> string list" where
  "groupedPrefix grouping g j = filter (\<lambda>x. x \<in> set grouping) (take j g)"

definition cleared :: "string list \<Rightarrow> nat \<Rightarrow> bool" where
  "cleared arr m = (\<forall>p. m \<le> p \<and> p < length arr \<longrightarrow> arr ! p = [])"

definition loopInv ::
  "string list \<Rightarrow> string list \<Rightarrow> nat \<Rightarrow> string list \<times> nat option \<Rightarrow> bool" where
  "loopInv grouping g i st =
     (case st of
        (arr, None) \<Rightarrow> filter (\<lambda>x. x \<in> set grouping) g = []
      | (arr, Some m) \<Rightarrow>
          length arr = length g \<and> m \<le> length arr \<and> cleared arr m
          \<and> ((\<exists>j < length g. i = length (groupedPrefix grouping g j)
                  \<and> take m arr = groupedPrefix grouping g j @ drop j g)
               \<or> (take m arr = filter (\<lambda>x. x \<in> set grouping) g \<and> m \<le> i)))"

text \<open>
  The invariant of the label lists of a source: no name twice in a list, and no name both
  guaranteed and excluded.
\<close>

definition labelsOk :: "Source \<Rightarrow> bool" where
  "labelsOk s =
     (distinct (IncludedLabels s) \<and> distinct (ExcludedLabels s) \<and> distinct (GuaranteedLabels s)
      \<and> set (GuaranteedLabels s) \<inter> set (ExcludedLabels s) = {})"

text \<open>
  Nodes on which the walk does not panic and returns a source: the position ranges that
  the walk slices lie inside the expression text, the aggregation operator and the
  function name are among those that \<open>walkAggregation\<close> and \<open>parseCall\<close> handle, a call
  with arguments has declared argument types, the parameter of \<open>count_values\<close> and the
  second argument of \<open>label_replace\<close> and \<open>label_join\<close> are string literal nodes, \<open>vector\<close>
  has an argument, and there is no \<open>StepInvariantExpr\<close>. A source satisfies \<open>emits\<close> when a
  binary expression without vector matching appends something for it.
\<close>

definition validRange :: "string \<Rightarrow> PositionRange \<Rightarrow> bool" where
  "validRange expr p = (0 \<le> Start p \<and> Start p \<le> End p \<and> End p \<le> int (length expr))"

definition knownFunctions :: "string list" where
  "knownFunctions =
     labelPreservingNames @ [''absent'', ''absent_over_time''] @ calendarNames
     @ [''label_replace'', ''label_join'', ''pi'', ''scalar'', ''sort'', ''sort_desc'', ''time'',
        ''vector'']"

fun handledAggregation :: "ItemType \<Rightarrow> bool" where
  "handledAggregation ItemSUM = True"
| "handledAggregation ItemMIN = True"
| "handledAggregation ItemMAX = True"
| "handledAggregation AVG = True"
| "handledAggregation GROUP = True"
| "handledAggregation STDDEV = True"
| "handledAggregation STDVAR = True"
| "handledAggregation COUNT = True"
| "handledAggregation COUNT_VALUES = True"
| "handledAggregation QUANTILE = True"
| "handledAggregation TOPK = True"
| "handledAggregation BOTTOMK = True"
| "handledAggregation op = False"

fun isStringLiteral :: "Node \<Rightarrow> bool" where
  "isStringLiteral (StringLiteral v p) = True"
| "isStringLiteral n = False"

fun wellFormed :: "string \<Rightarrow> Node \<Rightarrow> bool" where
  "wellFormed expr (AggregateExpr op e param grouping without p) =
     (handledAggregation op \<and> validRange expr p
      \<and> (op = COUNT_VALUES \<longrightarrow> (case param of Some q \<Rightarrow> isStringLiteral q | None \<Rightarrow> False))
      \<and> wellFormed expr e)"
| "wellFormed expr (BinaryExpr op l r vm rb) =
     (wellFormed expr l \<and> wellFormed expr r
      \<and> validRange expr \<lparr>Start = Start (PositionRangeOf l), End = End (PositionRangeOf r)\<rparr>)"
| "wellFormed expr (Call f args p) =
     (FuncName f \<in> set knownFunctions \<and> validRange expr p
      \<and> (args \<noteq> [] \<longrightarrow> ArgTypes f \<noteq> [])
      \<and> (FuncName f = ''label_replace'' \<or> FuncName f = ''label_join''
           \<longrightarrow> 1 < length args \<and> isStringLiteral (args ! 1))
      \<and> (FuncName f = ''vector'' \<longrightarrow> args \<noteq> [])
      \<and> (\<forall>a \<in> set args. wellFormed expr a))"
| "wellFormed expr (MatrixSelector vs ep) = wellFormed expr vs"
| "wellFormed expr (SubqueryExpr e ep) = wellFormed expr e"
| "wellFormed expr (NumberLiteral v p) = validRange expr p"
| "wellFormed expr (ParenExpr e p) = wellFormed expr e"
| "wellFormed expr (StringLiteral v p) = validRange expr p"
| "wellFormed expr (UnaryExpr op e sp) = wellFormed expr e"
| "wellFormed expr (StepInvariantExpr e) = False"
| "wellFormed expr (VectorSelector n) = True"

definition emits :: "Source \<Rightarrow> bool" where
  "emits s = (AlwaysReturns s \<or> Returns s = ValueTypeVector \<or> Returns s = ValueTypeMatrix)"

definition emitsAll :: "error + Source list \<Rightarrow> bool" where
  "emitsAll r = (\<exists>ss. r = Inr ss \<and> ss \<noteq> [] \<and> (\<forall>s \<in> set ss. emits s))"

section \<open>Theorems about the alerts/comparison check\<close>

lemma texts_distinct:
  "orText \<noteq> boolText" "orText \<noteq> noConditionText" "boolText \<noteq> noConditionText"
  by (simp_all add: orText_def boolText_def noConditionText_def)

lemma mkProblem_Text [simp]: "Text (mkProblem ar txt sev) = txt"
  by (simp add: mkProblem_def)

lemma mkProblem_Severity [simp]: "Severity (mkProblem ar txt sev) = sev"
  by (simp add: mkProblem_def)


lemma checkBool_Text: "q \<in> set (checkBool ar n) \<Longrightarrow> Text q = boolText"
  by (auto simp: checkBool_def split: Node.splits if_splits)

text \<open>
  C9. A rule that is not an alerting rule, and a rule whose expression carries a syntax
  error, get no problem from the alerts/comparison check.
\<close>

theorem Check_empty_for_non_alerting_or_syntax_error:
  assumes "AlertingRule rule = None
           \<or> (\<exists>ar. AlertingRule rule = Some ar \<and> SyntaxError (Expr ar) \<noteq> None)"
  shows "Check outer rule = []"
  using assms by (auto simp: Check_def)

theorem Check_empty_for_non_alerting_or_syntax_error_witness:
  "AlertingRule recordingRuleEx = None
   \<and> Check HasOuterBinaryExpr recordingRuleEx = []
   \<and> (\<exists>ar. AlertingRule syntaxErrorRuleEx = Some ar \<and> SyntaxError (Expr ar) \<noteq> None)
   \<and> Check HasOuterBinaryExpr syntaxErrorRuleEx = []"
proof -
  have a: "AlertingRule recordingRuleEx = None
           \<or> (\<exists>ar. AlertingRule recordingRuleEx = Some ar \<and> SyntaxError (Expr ar) \<noteq> None)"
    by (simp add: recordingRuleEx_def)
  have b: "AlertingRule syntaxErrorRuleEx = None
           \<or> (\<exists>ar. AlertingRule syntaxErrorRuleEx = Some ar \<and> SyntaxError (Expr ar) \<noteq> None)"
    by (simp add: syntaxErrorRuleEx_def)
  show ?thesis
    using Check_empty_for_non_alerting_or_syntax_error [OF a, of HasOuterBinaryExpr]
      Check_empty_for_non_alerting_or_syntax_error [OF b, of HasOuterBinaryExpr]
    by (simp add: recordingRuleEx_def syntaxErrorRuleEx_def)
qed

text \<open>
  What the first part of the check does, for any \<open>HasOuterBinaryExpr\<close>: when the outer
  binary expression is an \<open>or\<close>, the "will always fire" problem is reported exactly when
  one side has no comparison and no \<open>unless\<close> and \<open>isAbsent\<close> holds of neither side, with
  the severity \<open>Bug\<close> when a side is a call of \<open>vector\<close> and \<open>Warning\<close> otherwise.
\<close>

lemma Check_or_problem:
  assumes "AlertingRule rule = Some ar" and "SyntaxError (Expr ar) = None"
    and "outer (Query (Expr ar)) = Some (BinaryExpr LOR l r vm rb)"
  shows "(\<exists>q \<in> set (Check outer rule). Text q = orText)
         \<longleftrightarrow> (hasComparision l = None \<or> hasComparision r = None)
              \<and> \<not> isAbsent l \<and> \<not> isAbsent r"
    and "q \<in> set (Check outer rule) \<Longrightarrow> Text q = orText
         \<Longrightarrow> Severity q = rewriteSeverity Warning [l, r]"
proof -
  let ?c = "(hasComparision l = None \<or> hasComparision r = None) \<and> \<not> isAbsent l \<and> \<not> isAbsent r"
  have or_part: "checkOr ar (outer (Query (Expr ar)))
                 = (if ?c then [mkProblem ar orText (rewriteSeverity Warning [l, r])] else [])"
    using assms(3) by (simp add: checkOr_def)
  have rest: "\<exists>tl. Check outer rule = checkOr ar (outer (Query (Expr ar))) @ tl
                   \<and> (\<forall>t \<in> set tl. Text t \<noteq> orText)"
    using assms(1,2) texts_distinct
    by (auto simp: Check_def Let_def dest: checkBool_Text split: option.splits)
  then obtain tl where tl: "Check outer rule = checkOr ar (outer (Query (Expr ar))) @ tl"
    and ntl: "\<forall>t \<in> set tl. Text t \<noteq> orText" by blast
  show "(\<exists>q \<in> set (Check outer rule). Text q = orText) \<longleftrightarrow> ?c"
    using tl ntl or_part by auto
  show "q \<in> set (Check outer rule) \<Longrightarrow> Text q = orText
        \<Longrightarrow> Severity q = rewriteSeverity Warning [l, r]"
    using tl ntl or_part by (auto split: if_splits)
qed

text \<open>For \<open>up or vector(1)\<close> the first problem has the severity \<open>Bug\<close>.\<close>

lemma up_or_vector_is_bug:
  "map (\<lambda>q. (Text q, Severity q)) (Check HasOuterBinaryExpr upOrVector1Rule)
   = [(orText, Bug), (noConditionText, Warning)]"
  by (simp add: Check_def upOrVector1Rule_def alertingRule_def HasOuterBinaryExpr_def
      upOrVector1_def vector1_def selector_def checkOr_def mkProblem_def)

text \<open>
  C4. The claim counts a side as absent when a descendant is a call of \<open>absent\<close> or of
  \<open>absent_over_time\<close>; \<open>isAbsent\<close> looks for \<open>absent\<close> only. For the alert
  \<open>absent_over_time(foo[5m]) or bar\<close> the check reports the "will always fire" warning
  (and, finding no condition either, the "no condition" warning).
\<close>

theorem absent_over_time_or_warns:
  "Check HasOuterBinaryExpr absentOverTimeRule =
     [\<lparr>ProblemFragment = ''absent_over_time(foo[5m]) or bar'',
       ProblemLines = \<lparr>First = 2, Last = 2\<rparr>,
       Reporter = ''alerts/comparison'', Text = orText, Severity = Warning\<rparr>,
      \<lparr>ProblemFragment = ''absent_over_time(foo[5m]) or bar'',
       ProblemLines = \<lparr>First = 2, Last = 2\<rparr>,
       Reporter = ''alerts/comparison'', Text = noConditionText, Severity = Warning\<rparr>]"
  by (simp add: Check_def absentOverTimeRule_def alertingRule_def HasOuterBinaryExpr_def
      absentOverTimeOrBar_def absentOverTimeCall_def selector_def checkOr_def mkProblem_def
      ComparisonCheckName_def)




section \<open>Theorems about the label-flow analyser\<close>

subsection \<open>Slices\<close>

lemma Index_None: "Index sl v = None \<longleftrightarrow> v \<notin> set sl"
  by (induction sl) auto

lemma Index_Some: "Index sl v = Some idx \<Longrightarrow> idx < length sl \<and> sl ! idx = v \<and> v \<notin> set (take idx sl)"
  by (induction sl arbitrary: idx) (auto split: if_splits)

lemma Delete_Index: "Index sl v = Some idx \<Longrightarrow> Delete sl idx = remove1 v sl"
  by (induction sl arbitrary: idx) (auto simp: Delete_def split: if_splits)

lemma removeFromSlice_fold: "removeFromSlice sl vs = fold remove1 vs sl"
proof (induction vs arbitrary: sl)
  case Nil then show ?case by simp
next
  case (Cons v vs)
  have e: "fold remove1 vs [] = []" by (induction vs) auto
  show ?case
  proof (cases "Index sl v")
    case None
    then have "v \<notin> set sl" by (simp add: Index_None)
    then show ?thesis using None Cons by (simp add: remove1_idem)
  next
    case (Some idx)
    then have d: "Delete sl idx = remove1 v sl" by (rule Delete_Index)
    show ?thesis
    proof (cases "length sl = 1")
      case True
      then obtain x where "sl = [x]" by (cases sl) auto
      with Some have "remove1 v sl = []" by (auto split: if_splits)
      then show ?thesis using Some True e by simp
    next
      case False
      then show ?thesis using Some d Cons by simp
    qed
  qed
qed

lemma set_removeFromSlice_subset: "set (removeFromSlice sl vs) \<subseteq> set sl"
  unfolding removeFromSlice_fold
proof (induction vs arbitrary: sl)
  case Nil then show ?case by simp
next
  case (Cons v vs)
  have "set (fold remove1 vs (remove1 v sl)) \<subseteq> set (remove1 v sl)" by (rule Cons.IH)
  also have "\<dots> \<subseteq> set sl" by (rule set_remove1_subset)
  finally show ?case by simp
qed

lemma distinct_removeFromSlice: "distinct sl \<Longrightarrow> distinct (removeFromSlice sl vs)"
  unfolding removeFromSlice_fold
  by (induction vs arbitrary: sl) auto

lemma set_removeFromSlice: "distinct sl \<Longrightarrow> set (removeFromSlice sl vs) = set sl - set vs"
  unfolding removeFromSlice_fold
  by (induction vs arbitrary: sl) auto

lemma filter_remove1:
  "distinct sl \<Longrightarrow> filter P (remove1 v sl) = filter (\<lambda>x. x \<noteq> v \<and> P x) sl"
proof (induction sl)
  case Nil then show ?case by simp
next
  case (Cons a sl)
  show ?case
  proof (cases "a = v")
    case True
    with Cons.prems have "v \<notin> set sl" by simp
    then have "filter P sl = filter (\<lambda>x. x \<noteq> v \<and> P x) sl"
      by (intro filter_cong) auto
    with True show ?thesis by simp
  next
    case False
    with Cons show ?thesis by simp
  qed
qed

lemma removeFromSlice_filter: "distinct sl \<Longrightarrow> removeFromSlice sl vs = filter (\<lambda>x. x \<notin> set vs) sl"
  unfolding removeFromSlice_fold
proof (induction vs arbitrary: sl)
  case Nil then show ?case by simp
next
  case (Cons v vs)
  have "fold remove1 (v # vs) sl = fold remove1 vs (remove1 v sl)" by simp
  also have "\<dots> = filter (\<lambda>x. x \<notin> set vs) (remove1 v sl)" using Cons by simp
  also have "\<dots> = filter (\<lambda>x. x \<notin> set (v # vs)) sl"
    using Cons.prems by (simp add: filter_remove1 conj_commute)
  finally show ?case .
qed

lemma removeEach_eq [simp]: "removeEach sl names = removeFromSlice sl names"
proof (induction names arbitrary: sl)
  case Nil
  then show ?case by simp
next
  case (Cons name names)
  have e: "removeFromSlice [] names = []" by (induction names) auto
  show ?case using Cons e by (simp split: option.splits)
qed

lemma appendEach_eq [simp]: "appendEach dst names = appendToSlice dst names"
  by (induction names arbitrary: dst) auto

lemma set_appendToSlice: "set (appendToSlice dst vs) = set dst \<union> set vs"
  by (induction vs arbitrary: dst) auto

lemma distinct_appendToSlice: "distinct dst \<Longrightarrow> distinct (appendToSlice dst vs)"
  by (induction vs arbitrary: dst) auto

subsection \<open>The loop over the guaranteed labels\<close>

lemma keptFrom_refl: "keptFrom grouping v v"
  by (simp add: keptFrom_def)

lemma keptFrom_trans: "keptFrom grouping v v' \<Longrightarrow> keptFrom grouping v' v'' \<Longrightarrow> keptFrom grouping v v''"
  by (auto simp: keptFrom_def)

lemma keptFrom_remove1: "name \<notin> set grouping \<Longrightarrow> keptFrom grouping v (remove1 name v)"
  using set_remove1_subset [of name v]
  by (auto simp: keptFrom_def) (metis in_set_remove1)

lemma take_DeleteInPlace:
  assumes "idx < m" and "m \<le> length arr"
  shows "take (m - 1) (DeleteInPlace arr m idx) = Delete (take m arr) idx"
proof -
  have l: "length (take idx arr @ take (m - Suc idx) (drop (Suc idx) arr)) = m - 1"
    using assms by auto
  have "take (m - 1) (DeleteInPlace arr m idx)
        = take idx arr @ take (m - Suc idx) (drop (Suc idx) arr)"
    unfolding DeleteInPlace_def using l
    by (metis append.assoc append_eq_conv_conj)
  moreover have "Delete (take m arr) idx = take idx arr @ take (m - Suc idx) (drop (Suc idx) arr)"
    using assms by (simp add: Delete_def drop_take min_def)
  ultimately show ?thesis by simp
qed

lemma length_DeleteInPlace:
  "idx < m \<Longrightarrow> m \<le> length arr \<Longrightarrow> length (DeleteInPlace arr m idx) = length arr"
  by (auto simp: DeleteInPlace_def)

lemma dropUngrouped_step:
  assumes "sliceOk st"
  shows "sliceOk (dropUngrouped grouping i st)
         \<and> length (fst (dropUngrouped grouping i st)) = length (fst st)
         \<and> keptFrom grouping (sliceOf st) (sliceOf (dropUngrouped grouping i st))"
proof (cases st)
  case (Pair arr cur)
  show ?thesis
  proof (cases "arr ! i \<in> set grouping")
    case True
    with Pair assms show ?thesis by (simp add: keptFrom_refl)
  next
    case ng: False
    show ?thesis
    proof (cases cur)
      case None
      with Pair ng assms show ?thesis by (simp add: keptFrom_refl Let_def)
    next
      case (Some m)
      with Pair assms have m: "m \<le> length arr" by (simp add: sliceOk_def)
      show ?thesis
      proof (cases "Index (take m arr) (arr ! i)")
        case None
        with Pair ng Some assms show ?thesis by (simp add: keptFrom_refl Let_def)
      next
        case found: (Some idx)
        then have idx: "idx < m" using Index_Some [OF found] by simp
        have rm: "Delete (take m arr) idx = remove1 (arr ! i) (take m arr)"
          using found by (rule Delete_Index)
        show ?thesis
        proof (cases "m = 1")
          case True
          then have "length (take m arr) = 1" using m by simp
          then obtain x where x: "take m arr = [x]" by (cases "take m arr") auto
          with found have "remove1 (arr ! i) (take m arr) = []" by (auto split: if_splits)
          then have "keptFrom grouping (take m arr) []"
            using keptFrom_remove1 [OF ng, of "take m arr"] by simp
          with Pair ng Some found True show ?thesis
            by (simp add: Let_def sliceOk_def sliceOf_def)
        next
          case False
          have "keptFrom grouping (take m arr) (take (m - 1) (DeleteInPlace arr m idx))"
            using keptFrom_remove1 [OF ng, of "take m arr"] rm take_DeleteInPlace [OF idx m]
            by simp
          with Pair ng Some found False idx m show ?thesis
            by (simp add: Let_def sliceOk_def sliceOf_def length_DeleteInPlace)
        qed
      qed
    qed
  qed
qed

lemma fold_dropUngrouped:
  "sliceOk st \<Longrightarrow>
   sliceOk (fold (dropUngrouped grouping) idxs st)
   \<and> keptFrom grouping (sliceOf st) (sliceOf (fold (dropUngrouped grouping) idxs st))"
proof (induction idxs arbitrary: st)
  case Nil
  then show ?case by (simp add: keptFrom_refl)
next
  case (Cons i idxs)
  from dropUngrouped_step [OF Cons.prems, of grouping i]
  have ok: "sliceOk (dropUngrouped grouping i st)"
    and k: "keptFrom grouping (sliceOf st) (sliceOf (dropUngrouped grouping i st))" by auto
  from Cons.IH [OF ok] k show ?case
    by (auto intro: keptFrom_trans)
qed

lemma keepGrouped_keptFrom: "keptFrom grouping g (keepGrouped grouping g)"
proof -
  let ?st = "(g, Some (length g))"
  have ok: "sliceOk ?st" by (simp add: sliceOk_def)
  have "keepGrouped grouping g = sliceOf (fold (dropUngrouped grouping) [0..<length g] ?st)"
    by (simp add: keepGrouped_def sliceOf_def split: prod.splits option.splits)
  moreover have "sliceOf ?st = g" by (simp add: sliceOf_def)
  ultimately show ?thesis using fold_dropUngrouped [OF ok, of grouping "[0..<length g]"] by simp
qed

lemma set_keepGrouped: "set (keepGrouped grouping g) \<subseteq> set g"
  using keepGrouped_keptFrom [of grouping g] by (simp add: keptFrom_def)

lemma distinct_keepGrouped: "distinct g \<Longrightarrow> distinct (keepGrouped grouping g)"
  using keepGrouped_keptFrom [of grouping g] by (simp add: keptFrom_def)

lemma keepGrouped_keeps: "set g \<inter> set grouping \<subseteq> set (keepGrouped grouping g)"
  using keepGrouped_keptFrom [of grouping g] by (simp add: keptFrom_def)

text \<open>
  When no two neighbours of the slice are both outside the grouping, every label outside
  the grouping is read by some round of the loop, and the loop leaves exactly the labels
  of the grouping.
\<close>

lemma noTwoUngroupedAdjacent_nth:
  "noTwoUngroupedAdjacent grouping g \<Longrightarrow> Suc j < length g \<Longrightarrow>
   g ! j \<in> set grouping \<or> g ! Suc j \<in> set grouping"
proof (induction grouping g arbitrary: j rule: noTwoUngroupedAdjacent.induct)
  case (3 grouping x y ys)
  then show ?case by (cases j) auto
qed auto

lemma groupedPrefix_Suc:
  "j < length g \<Longrightarrow>
   groupedPrefix grouping g (Suc j)
   = groupedPrefix grouping g j @ (if g ! j \<in> set grouping then [g ! j] else [])"
  by (simp add: groupedPrefix_def take_Suc_conv_app_nth)

lemma groupedPrefix_all: "groupedPrefix grouping g (length g) = filter (\<lambda>x. x \<in> set grouping) g"
  by (simp add: groupedPrefix_def)

lemma length_groupedPrefix: "j \<le> length g \<Longrightarrow> length (groupedPrefix grouping g j) \<le> j"
  unfolding groupedPrefix_def
  by (metis length_filter_le length_take min.absorb2)

lemma nth_notin_groupedPrefix:
  "distinct g \<Longrightarrow> j < length g \<Longrightarrow> g ! j \<notin> set (groupedPrefix grouping g j)"
proof -
  assume d: "distinct g" and j: "j < length g"
  have "g = take j g @ g ! j # drop (Suc j) g" using j by (rule id_take_nth_drop)
  with d have "distinct (take j g @ g ! j # drop (Suc j) g)" by simp
  then have "g ! j \<notin> set (take j g)" by simp
  then show ?thesis by (simp add: groupedPrefix_def)
qed

lemma Index_append_first: "v \<notin> set xs \<Longrightarrow> Index (xs @ v # ys) v = Some (length xs)"
  by (induction xs) auto

lemma Delete_append_first: "Delete (xs @ v # ys) (length xs) = xs @ ys"
  by (simp add: Delete_def)

lemma DeleteInPlace_eq:
  assumes "idx < m" and "m \<le> length arr"
  shows "DeleteInPlace arr m idx = Delete (take m arr) idx @ [[]] @ drop m arr"
  using assms by (simp add: DeleteInPlace_def Delete_def drop_take min_def)

lemma length_Delete: "idx < length sl \<Longrightarrow> length (Delete sl idx) = length sl - 1"
  by (auto simp: Delete_def)

lemma cleared_DeleteInPlace:
  assumes "idx < m" and "m \<le> length arr" and "cleared arr m"
  shows "cleared (DeleteInPlace arr m idx) (m - 1)"
proof -
  have l: "length (Delete (take m arr) idx) = m - 1"
    using assms by (simp add: length_Delete)
  show ?thesis
    unfolding cleared_def
  proof (intro allI impI)
    fix p
    assume p: "m - 1 \<le> p \<and> p < length (DeleteInPlace arr m idx)"
    have len: "length (DeleteInPlace arr m idx) = length arr"
      using assms by (simp add: length_DeleteInPlace)
    show "DeleteInPlace arr m idx ! p = []"
    proof (cases "p = m - 1")
      case True
      then show ?thesis
        unfolding DeleteInPlace_eq [OF assms(1,2)] using l by (simp add: nth_append)
    next
      case False
      with p have pm: "m \<le> p" "p < length arr" using len assms(1) by auto
      have "DeleteInPlace arr m idx ! p = (drop m arr) ! (p - m)"
        unfolding DeleteInPlace_eq [OF assms(1,2)] using l pm assms(1)
        by (auto simp: nth_append nth_Cons')
      also have "\<dots> = arr ! p" using pm by simp
      also have "\<dots> = []" using assms(3) pm by (simp add: cleared_def)
      finally show ?thesis .
    qed
  qed
qed

lemma loopInv_step:
  assumes inv: "loopInv grouping g i st" and i: "i < length g" and d: "distinct g"
    and adj: "noTwoUngroupedAdjacent grouping g"
  shows "loopInv grouping g (Suc i) (dropUngrouped grouping i st)"
proof (cases st)
  case (Pair arr cur)
  show ?thesis
  proof (cases cur)
    case None
    with Pair inv show ?thesis by (simp add: loopInv_def Let_def)
  next
    case (Some m)
    from inv Pair Some have len: "length arr = length g" and m: "m \<le> length arr"
      and cl: "cleared arr m"
      and ph: "(\<exists>j < length g. i = length (groupedPrefix grouping g j)
                  \<and> take m arr = groupedPrefix grouping g j @ drop j g)
               \<or> (take m arr = filter (\<lambda>x. x \<in> set grouping) g \<and> m \<le> i)"
      by (auto simp: loopInv_def)
    from ph show ?thesis
    proof
      assume "take m arr = filter (\<lambda>x. x \<in> set grouping) g \<and> m \<le> i"
      then have v: "take m arr = filter (\<lambda>x. x \<in> set grouping) g" and mi: "m \<le> i" by auto
      have name: "arr ! i = []" using cl mi i len by (simp add: cleared_def)
      have same: "dropUngrouped grouping i st = st"
      proof (cases "[] \<in> set grouping")
        case True
        with name Pair show ?thesis by simp
      next
        case False
        then have "[] \<notin> set (take m arr)" unfolding v by simp
        then have "Index (take m arr) [] = None" by (simp add: Index_None)
        with name Pair Some False show ?thesis by simp
      qed
      show ?thesis
        unfolding same using Pair Some len m cl v mi by (simp add: loopInv_def)
    next
      assume "\<exists>j < length g. i = length (groupedPrefix grouping g j)
                  \<and> take m arr = groupedPrefix grouping g j @ drop j g"
      then obtain j where j: "j < length g"
        and ij: "i = length (groupedPrefix grouping g j)"
        and v: "take m arr = groupedPrefix grouping g j @ drop j g" by blast
      let ?F = "groupedPrefix grouping g j"
      have dj: "drop j g = g ! j # drop (Suc j) g" using j by (simp add: Cons_nth_drop_Suc)
      have ml: "m = length ?F + (length g - j)"
      proof -
        have "length (take m arr) = m" using m by simp
        then show ?thesis unfolding v by simp
      qed
      have im: "i < m" using ml ij j by arith
      have name: "arr ! i = g ! j"
      proof -
        have "arr ! i = take m arr ! i" using im by simp
        also have "\<dots> = g ! j" unfolding v dj ij by simp
        finally show ?thesis .
      qed
      show ?thesis
      proof (cases "g ! j \<in> set grouping")
        case True
        then have same: "dropUngrouped grouping i st = st" using name Pair by simp
        have F': "groupedPrefix grouping g (Suc j) = ?F @ [g ! j]"
          using True j by (simp add: groupedPrefix_Suc)
        have v': "take m arr = groupedPrefix grouping g (Suc j) @ drop (Suc j) g"
          unfolding v F' dj by simp
        show ?thesis
        proof (cases "Suc j < length g")
          case True
          then show ?thesis
            unfolding same using Pair Some len m cl v' F' ij
            by (auto simp: loopInv_def)
        next
          case False
          then have e: "Suc j = length g" using j by simp
          have "take m arr = filter (\<lambda>x. x \<in> set grouping) g"
            using v' unfolding e groupedPrefix_all by simp
          moreover have "m \<le> Suc i" using ml ij e by arith
          ultimately show ?thesis
            unfolding same using Pair Some len m cl by (simp add: loopInv_def)
        qed
      next
        case ng: False
        have nin: "g ! j \<notin> set ?F" using d j by (rule nth_notin_groupedPrefix)
        have idx: "Index (take m arr) (arr ! i) = Some i"
        proof -
          have "Index (?F @ g ! j # drop (Suc j) g) (g ! j) = Some (length ?F)"
            by (rule Index_append_first [OF nin])
          then show ?thesis using name v dj ij by simp
        qed
        have Fsame: "groupedPrefix grouping g (Suc j) = ?F"
          using ng j by (simp add: groupedPrefix_Suc)
        show ?thesis
        proof (cases "m = 1")
          case True
          from ml True j have f0: "length ?F = 0" by arith
          from ml True j have e: "Suc j = length g" by arith
          have "filter (\<lambda>x. x \<in> set grouping) g = []"
            using Fsame f0 groupedPrefix_all [of grouping g] unfolding e by simp
          moreover have "dropUngrouped grouping i st = (arr, None)"
            using Pair Some ng name idx True by (simp add: Let_def)
          ultimately show ?thesis by (simp add: loopInv_def)
        next
          case False
          have step: "dropUngrouped grouping i st = (DeleteInPlace arr m i, Some (m - 1))"
            using Pair Some ng name idx False by (simp add: Let_def)
          have l': "length (DeleteInPlace arr m i) = length g"
            using im m len by (simp add: length_DeleteInPlace)
          have c': "cleared (DeleteInPlace arr m i) (m - 1)"
            using im m cl by (rule cleared_DeleteInPlace)
          have v1: "take (m - 1) (DeleteInPlace arr m i) = ?F @ drop (Suc j) g"
          proof -
            have "take (m - 1) (DeleteInPlace arr m i) = Delete (take m arr) i"
              using im m by (rule take_DeleteInPlace)
            also have "\<dots> = ?F @ drop (Suc j) g"
              unfolding v dj ij by (rule Delete_append_first)
            finally show ?thesis .
          qed
          have m': "m - 1 \<le> length (DeleteInPlace arr m i)" using m l' len by simp
          show ?thesis
          proof (cases "Suc j < length g")
            case sj: True
            from noTwoUngroupedAdjacent_nth [OF adj sj] ng
            have gr: "g ! Suc j \<in> set grouping" by simp
            have F2: "groupedPrefix grouping g (Suc (Suc j)) = ?F @ [g ! Suc j]"
              using gr sj Fsame by (simp add: groupedPrefix_Suc)
            have dj2: "drop (Suc j) g = g ! Suc j # drop (Suc (Suc j)) g"
              using sj by (simp add: Cons_nth_drop_Suc)
            have v2: "take (m - 1) (DeleteInPlace arr m i)
                      = groupedPrefix grouping g (Suc (Suc j)) @ drop (Suc (Suc j)) g"
              unfolding v1 F2 dj2 by simp
            show ?thesis
            proof (cases "Suc (Suc j) < length g")
              case True
              then show ?thesis
                unfolding step using l' m' c' v2 F2 ij
                by (auto simp: loopInv_def)
            next
              case False
              then have e: "Suc (Suc j) = length g" using sj by simp
              have "take (m - 1) (DeleteInPlace arr m i) = filter (\<lambda>x. x \<in> set grouping) g"
                using v2 unfolding e groupedPrefix_all by simp
              moreover have "m - 1 \<le> Suc i" using ml ij e by arith
              ultimately show ?thesis
                unfolding step using l' m' c' by (simp add: loopInv_def)
            qed
          next
            case False
            then have e: "Suc j = length g" using j by simp
            have dn: "drop (Suc j) g = []" using e by simp
            have "groupedPrefix grouping g (Suc j) = filter (\<lambda>x. x \<in> set grouping) g"
              unfolding e by (rule groupedPrefix_all)
            then have "take (m - 1) (DeleteInPlace arr m i) = filter (\<lambda>x. x \<in> set grouping) g"
              using v1 Fsame dn by simp
            moreover have "m - 1 \<le> Suc i" using ml ij e by arith
            ultimately show ?thesis
              unfolding step using l' m' c' by (simp add: loopInv_def)
          qed
        qed
      qed
    qed
  qed
qed

lemma loopInv_fold:
  assumes "distinct g" and "noTwoUngroupedAdjacent grouping g" and "k \<le> length g"
  shows "loopInv grouping g k (fold (dropUngrouped grouping) [0..<k] (g, Some (length g)))"
  using assms(3)
proof (induction k)
  case 0
  show ?case
  proof (cases "g = []")
    case True
    then show ?thesis by (simp add: loopInv_def cleared_def)
  next
    case False
    then have "0 < length g" by simp
    moreover have "groupedPrefix grouping g 0 = []" by (simp add: groupedPrefix_def)
    ultimately show ?thesis by (auto simp: loopInv_def cleared_def)
  qed
next
  case (Suc k)
  then have "loopInv grouping g k (fold (dropUngrouped grouping) [0..<k] (g, Some (length g)))"
    and k: "k < length g" by auto
  from loopInv_step [OF this(1) k assms(1,2)] show ?case by simp
qed

lemma keepGrouped_exact:
  assumes "distinct g" and "noTwoUngroupedAdjacent grouping g"
  shows "keepGrouped grouping g = filter (\<lambda>x. x \<in> set grouping) g"
proof -
  let ?st = "fold (dropUngrouped grouping) [0..<length g] (g, Some (length g))"
  have inv: "loopInv grouping g (length g) ?st"
    using loopInv_fold [OF assms, of "length g"] by simp
  obtain arr cur where st: "?st = (arr, cur)" by (cases ?st)
  show ?thesis
  proof (cases cur)
    case None
    with inv st show ?thesis by (simp add: loopInv_def keepGrouped_def)
  next
    case (Some m)
    have no: "\<not> (\<exists>j < length g. length g = length (groupedPrefix grouping g j)
                  \<and> take m arr = groupedPrefix grouping g j @ drop j g)"
    proof
      assume "\<exists>j < length g. length g = length (groupedPrefix grouping g j)
                  \<and> take m arr = groupedPrefix grouping g j @ drop j g"
      then obtain j where "j < length g" "length g = length (groupedPrefix grouping g j)" by blast
      with length_groupedPrefix [of j g grouping] show False by simp
    qed
    with inv st Some have "take m arr = filter (\<lambda>x. x \<in> set grouping) g"
      by (auto simp: loopInv_def)
    with st Some show ?thesis by (simp add: keepGrouped_def)
  qed
qed

subsection \<open>Labels from selectors\<close>

lemma appendToSlice_append:
  "appendToSlice dst (xs @ ys) = appendToSlice (appendToSlice dst xs) ys"
  by (induction xs arbitrary: dst) auto

lemma bump_append: "bump (xs @ ys) cnt = bump ys (bump xs cnt)"
  by (simp add: bump_def)

lemma countMatchers_eq:
  "countMatchers matches lms (names, cnt)
   = (appendToSlice names (qualNames matches lms), bump (qualNames matches lms) cnt)"
  by (induction lms arbitrary: names cnt) (auto simp: qualNames_def bump_def)

lemma countSelectors_eq:
  "countSelectors matches sels (names, cnt)
   = (appendToSlice names (concat (map (\<lambda>sel. qualNames matches (LabelMatchers sel)) sels)),
      bump (concat (map (\<lambda>sel. qualNames matches (LabelMatchers sel)) sels)) cnt)"
  by (induction sels arbitrary: names cnt)
     (auto simp: countMatchers_eq appendToSlice_append bump_append bump_def)

lemma bump_count:
  "bump qs cnt x =
     (if x \<in> set qs then Some ((case cnt x of None \<Rightarrow> 0 | Some k \<Rightarrow> k) + count_list qs x)
      else cnt x)"
  by (induction qs arbitrary: cnt) (auto simp: bump_def)

lemma removeMiscounted_filter:
  "distinct names \<Longrightarrow>
   removeMiscounted n cnt keys names = filter (\<lambda>x. \<not> (x \<in> set keys \<and> cnt x \<noteq> Some n)) names"
proof (induction keys arbitrary: names)
  case Nil
  then show ?case by simp
next
  case (Cons k keys)
  show ?case
  proof (cases "cnt k \<noteq> Some n")
    case True
    have d: "distinct (removeFromSlice names [k])" using Cons.prems by (rule distinct_removeFromSlice)
    have "removeMiscounted n cnt (k # keys) names
          = filter (\<lambda>x. \<not> (x \<in> set keys \<and> cnt x \<noteq> Some n)) (removeFromSlice names [k])"
      using True Cons.IH [OF d] by simp
    also have "\<dots> = filter (\<lambda>x. \<not> (x \<in> set keys \<and> cnt x \<noteq> Some n))
                        (filter (\<lambda>x. x \<notin> set [k]) names)"
      by (simp only: removeFromSlice_filter [OF Cons.prems])
    also have "\<dots> = filter (\<lambda>x. \<not> (x \<in> set (k # keys) \<and> cnt x \<noteq> Some n)) names"
      unfolding filter_filter using True by (intro filter_cong) auto
    finally show ?thesis .
  next
    case False
    then have "removeMiscounted n cnt (k # keys) names
               = filter (\<lambda>x. \<not> (x \<in> set keys \<and> cnt x \<noteq> Some n)) names"
      using Cons.IH [OF Cons.prems] by simp
    also have "\<dots> = filter (\<lambda>x. \<not> (x \<in> set (k # keys) \<and> cnt x \<noteq> Some n)) names"
      using False by (auto intro: filter_cong)
    finally show ?thesis .
  qed
qed

text \<open>
  The second loop of \<open>labelsFromSelectors\<close> ranges over a map, in an order that Go does
  not fix; the result does not depend on that order.
\<close>

lemma removeMiscounted_order:
  "distinct names \<Longrightarrow> set keys = set keys' \<Longrightarrow>
   removeMiscounted n cnt keys names = removeMiscounted n cnt keys' names"
  by (simp add: removeMiscounted_filter)

lemma labelsFromSelectors_eq:
  "labelsFromSelectors matches sels =
     filter (\<lambda>x. count_list (concat (map (\<lambda>sel. qualNames matches (LabelMatchers sel)) sels)) x
                 = length sels)
       (appendToSlice [] (concat (map (\<lambda>sel. qualNames matches (LabelMatchers sel)) sels)))"
proof -
  let ?Q = "concat (map (\<lambda>sel. qualNames matches (LabelMatchers sel)) sels)"
  have d: "distinct (appendToSlice [] ?Q)" by (simp add: distinct_appendToSlice)
  have "labelsFromSelectors matches sels
        = removeMiscounted (length sels) (bump ?Q Map.empty) (appendToSlice [] ?Q) (appendToSlice [] ?Q)"
    by (simp add: labelsFromSelectors_def countSelectors_eq)
  also have "\<dots> = filter (\<lambda>x. \<not> (x \<in> set (appendToSlice [] ?Q) \<and> bump ?Q Map.empty x \<noteq> Some (length sels)))
                      (appendToSlice [] ?Q)"
    by (rule removeMiscounted_filter [OF d])
  also have "\<dots> = filter (\<lambda>x. count_list ?Q x = length sels) (appendToSlice [] ?Q)"
    by (rule filter_cong) (auto simp: set_appendToSlice bump_count)
  finally show ?thesis .
qed

lemma distinct_labelsFromSelectors: "distinct (labelsFromSelectors matches sels)"
  by (simp add: labelsFromSelectors_eq distinct_appendToSlice)

lemma set_labelsFromSelectors:
  "set (labelsFromSelectors matches sels) =
     {x \<in> set (concat (map (\<lambda>sel. qualNames matches (LabelMatchers sel)) sels)).
        count_list (concat (map (\<lambda>sel. qualNames matches (LabelMatchers sel)) sels)) x = length sels}"
  by (auto simp: labelsFromSelectors_eq set_appendToSlice)

lemma count_list_distinct:
  "distinct xs \<Longrightarrow> count_list xs x = (if x \<in> set xs then 1 else 0)"
  by (induction xs) auto

lemma count_concat_le:
  "\<forall>s \<in> set sels. distinct (f s) \<Longrightarrow> count_list (concat (map f sels)) x \<le> length sels"
proof (induction sels)
  case Nil then show ?case by simp
next
  case (Cons s sels)
  have "count_list (f s) x \<le> 1" using Cons.prems by (simp add: count_list_distinct)
  then show ?case using Cons by (simp add: count_list_append) 
qed

lemma count_concat_full:
  "\<forall>s \<in> set sels. distinct (f s) \<Longrightarrow>
   count_list (concat (map f sels)) x = length sels \<longleftrightarrow> (\<forall>s \<in> set sels. x \<in> set (f s))"
proof (induction sels)
  case Nil then show ?case by simp
next
  case (Cons s sels)
  have d: "\<forall>s \<in> set sels. distinct (f s)" using Cons.prems by simp
  have one: "count_list (f s) x = (if x \<in> set (f s) then 1 else 0)"
    using Cons.prems by (simp add: count_list_distinct)
  have le: "count_list (concat (map f sels)) x \<le> length sels" by (rule count_concat_le [OF d])
  show ?case using Cons.IH [OF d] one le by (auto simp: )
qed

lemma set_labelsFromSelectors_inter:
  assumes "\<forall>sel \<in> set sels. distinct (qualNames matches (LabelMatchers sel))"
  shows "set (labelsFromSelectors matches sels) =
           (if sels = [] then {} else (\<Inter>sel \<in> set sels. set (qualNames matches (LabelMatchers sel))))"
proof (cases "sels = []")
  case True
  then show ?thesis by (simp add: set_labelsFromSelectors)
next
  case False
  then obtain s0 where s0: "s0 \<in> set sels" by (cases sels) auto
  show ?thesis
    using False s0 count_concat_full [OF assms]
    by (auto simp: set_labelsFromSelectors)
qed

subsection \<open>topk and bottomk\<close>

text \<open>
  C7. The sources of \<open>topk(k, X)\<close> and of \<open>bottomk(k, X)\<close> are the sources of \<open>X\<close>, in the
  same order, with the kind set to \<open>AggregateSource\<close> and the operation set to the name
  of the aggregation; every other field is the one of the source of \<open>X\<close>, and a panic of
  the walk of \<open>X\<close> is the panic of the whole.
\<close>

theorem topk_bottomk_only_tag:
  "walkNode fa expr (AggregateExpr TOPK x param grouping without p) =
     (case walkNode fa expr x of
        Inl e \<Rightarrow> Inl e
      | Inr ss \<Rightarrow> Inr (map (\<lambda>s. s\<lparr>Type := AggregateSource, Operation := ''topk''\<rparr>) ss))
   \<and> walkNode fa expr (AggregateExpr BOTTOMK x param grouping without p) =
     (case walkNode fa expr x of
        Inl e \<Rightarrow> Inl e
      | Inr ss \<Rightarrow> Inr (map (\<lambda>s. s\<lparr>Type := AggregateSource, Operation := ''bottomk''\<rparr>) ss))"
  by (simp add: bindE_def tagSource_def split: sum.splits)

subsection \<open>Constant folding\<close>

lemma float_total:
  "lv \<noteq> NaN \<Longrightarrow> rv \<noteq> NaN \<Longrightarrow> float_lt rv lv \<longleftrightarrow> \<not> (float_lt lv rv \<or> float_eq lv rv)"
  by (cases lv; cases rv) (auto simp: float_eq_def)

lemma calculateStaticReturn_comparison:
  assumes "IsComparisonOperator op"
    and "op = EQLC \<or> op = NEQ \<or> (lv \<noteq> NaN \<and> rv \<noteq> NaN)"
  shows "calculateStaticReturn fa lv rv op isDead
         = (lv, if comparisonHolds op lv rv then isDead else True)"
proof (cases "op = EQLC \<or> op = NEQ")
  case True
  then show ?thesis by auto
next
  case False
  with assms(2) have n: "lv \<noteq> NaN" "rv \<noteq> NaN" by auto
  from float_total [OF n] float_total [OF n(2) n(1)]
  show ?thesis using assms(1)
    by (cases op) (auto simp: float_gt_def float_ge_def float_le_def float_eq_def)
qed

text \<open>
  C6, amended. For a comparison without vector matching between two sides that each walk
  to one source that always returns, with one returned number each: the walk gives the
  source of the left side with its number kept, marked dead when the predicate is false
  and with \<open>IsDead\<close> as it was when the predicate is true; for \<open>==\<close> and \<open>!=\<close> with any
  numbers, for the four order comparisons when neither number is \<open>NaN\<close>.
\<close>

theorem comparison_of_constants:
  assumes "IsComparisonOperator op"
    and "walkNode fa expr l = Inr [ls]" and "walkNode fa expr r = Inr [rs]"
    and "AlwaysReturns ls" and "AlwaysReturns rs"
    and "ReturnedNumbers ls = [lv]" and "ReturnedNumbers rs = [rv]"
    and "op = EQLC \<or> op = NEQ \<or> (lv \<noteq> NaN \<and> rv \<noteq> NaN)"
  shows "walkNode fa expr (BinaryExpr op l r None rb)
         = Inr [ls\<lparr>IsDead := (if comparisonHolds op lv rv then IsDead ls else True)\<rparr>]"
proof -
  have c: "calculateStaticReturn fa lv rv op (IsDead ls)
           = (lv, if comparisonHolds op lv rv then IsDead ls else True)"
    using assms(1,8) by (rule calculateStaticReturn_comparison)
  have "ls\<lparr>ReturnedNumbers := [lv]\<rparr> = ls" using assms(6) by simp
  then show ?thesis
    using assms(2-7) c
    by (simp add: parseBinOps_def bindE_def pairSources_def)
qed

theorem comparison_of_constants_witness:
  "map_sum id (map (\<lambda>s. (ReturnedNumbers s, IsDead s)))
     (walkNode leftArith ''1 > bool 2'' oneGtBool2) = Inr [([Finite 1], True)]"
proof -
  let ?e = "''1 > bool 2''"
  let ?ls = "hd (projr (walkNode leftArith ?e (NumberLiteral (Finite 1) (pos 0 1))))"
  let ?rs = "hd (projr (walkNode leftArith ?e (NumberLiteral (Finite 2) (pos 9 10))))"
  have op: "IsComparisonOperator GTR" by simp
  have l: "walkNode leftArith ?e (NumberLiteral (Finite 1) (pos 0 1)) = Inr [?ls]"
    by (simp add: getQueryFragment_def pos_def bindE_def)
  have r: "walkNode leftArith ?e (NumberLiteral (Finite 2) (pos 9 10)) = Inr [?rs]"
    by (simp add: getQueryFragment_def pos_def bindE_def)
  have al: "AlwaysReturns ?ls" and ar: "AlwaysReturns ?rs"
    and nl: "ReturnedNumbers ?ls = [Finite 1]" and nr: "ReturnedNumbers ?rs = [Finite 2]"
    and dl: "IsDead ?ls = False"
    by (simp_all add: getQueryFragment_def pos_def bindE_def zeroSource_def)
  have nn: "GTR = EQLC \<or> GTR = NEQ \<or> (Finite 1 \<noteq> NaN \<and> Finite 2 \<noteq> NaN)" by simp
  have c: "\<not> comparisonHolds GTR (Finite 1) (Finite 2)" by (simp add: float_gt_def)
  show ?thesis
    using comparison_of_constants [OF op l r al ar nl nr nn, of True] c nl
    by (simp add: oneGtBool2_def)
qed

text \<open>
  C6, as stated, fails in two ways. When an operand is not a number: in
  \<open>vector(NaN) <= 1\<close> the predicate \<open>NaN <= 1\<close> is false and the source is not marked
  dead, because the code tests the opposite comparison, \<open>NaN > 1\<close>, which is false as
  well. When both operands are vectors: \<open>vector(1) == vector(2)\<close> has vector matching,
  constants are folded only without it, and the source is not marked dead.
\<close>

theorem comparison_not_marked_dead:
  "\<not> comparisonHolds LTE NaN (Finite 1)
   \<and> map_sum id (map IsDead) (walkNode leftArith ''vector(NaN) <= 1'' vectorNaNLte1) = Inr [False]
   \<and> \<not> comparisonHolds EQLC (Finite 1) (Finite 2)
   \<and> map_sum id (map IsDead) (walkNode leftArith ''vector(1) == vector(2)'' vector1EqVector2)
       = Inr [False]"
  by code_simp

subsection \<open>Label-preserving functions\<close>

lemma positiveNames_qual:
  "positiveNames sel = qualNames guaranteedLabelsMatches (LabelMatchers sel)"
  by (simp add: positiveNames_def qualNames_def guaranteedLabelsMatches_def)

lemma appendToSlice_Nil_set: "set (appendToSlice [] xs) = set xs"
  by (simp add: set_appendToSlice)

lemma overTime_first:
  "n \<in> set overTimeNames \<Longrightarrow>
   n \<notin> set transformNames \<and> n \<noteq> ''absent'' \<and> n \<noteq> ''absent_over_time''"
  unfolding overTimeNames_def transformNames_def by (elim disjE conjE | simp)+

lemma math_first:
  "n \<in> set mathNames \<Longrightarrow>
   n \<notin> set transformNames \<and> n \<noteq> ''absent'' \<and> n \<noteq> ''absent_over_time''
   \<and> n \<notin> set overTimeNames \<and> n \<notin> set calendarNames"
  unfolding overTimeNames_def transformNames_def mathNames_def calendarNames_def
  by (elim disjE conjE | simp)+

lemma timestamp_first:
  "''timestamp'' \<notin> set transformNames \<and> ''timestamp'' \<notin> set overTimeNames
   \<and> ''timestamp'' \<notin> set calendarNames \<and> ''timestamp'' \<notin> set mathNames"
  unfolding overTimeNames_def transformNames_def mathNames_def calendarNames_def by simp

lemma parseCall_labelPreserving:
  assumes "FuncName f \<in> set labelPreservingNames"
  shows "parseCall expr f args p walked =
           bindE (argSelectors (ArgTypes f) 0 walked [])
             (\<lambda>sels. Inr (keepLabels (zeroSource\<lparr>Type := FuncSource, Operation := FuncName f,
                               CallRef := Some (Call f args p), Selectors := sels\<rparr>)))"
proof -
  consider "FuncName f \<in> set transformNames" | "FuncName f \<in> set overTimeNames"
    | "FuncName f \<in> set mathNames" | "FuncName f = ''timestamp''"
    using assms by (auto simp: labelPreservingNames_def)
  then show ?thesis
  proof cases
    case 1
    then show ?thesis by (simp add: parseCall_def Let_def)
  next
    case 2
    with overTime_first [OF 2] show ?thesis by (simp add: parseCall_def Let_def)
  next
    case 3
    with math_first [OF 3] show ?thesis by (simp add: parseCall_def Let_def)
  next
    case 4
    with timestamp_first show ?thesis by (simp add: parseCall_def Let_def)
  qed
qed

text \<open>
  C2, amended. A call of a label-preserving function walks to one source; it returns a
  vector; its selectors are those gathered from the arguments declared as vector or
  matrix; and, when no selector has two positive matchers on one label name, its
  guaranteed labels are the names that have a positive matcher (the metric name apart)
  in every one of these selectors: the intersection over the selectors, not the union,
  and none when there is no selector.
\<close>

theorem label_preserving_call:
  assumes "FuncName f \<in> set labelPreservingNames"
    and "walkNode fa expr (Call f args p) = Inr ss"
  shows "\<exists>s. ss = [s] \<and> Returns s = ValueTypeVector
           \<and> argSelectors (ArgTypes f) 0 (map (walkNode fa expr) args) [] = Inr (Selectors s)
           \<and> distinct (GuaranteedLabels s)
           \<and> ((\<forall>sel \<in> set (Selectors s). distinct (positiveNames sel)) \<longrightarrow>
                set (GuaranteedLabels s) =
                  (if Selectors s = [] then {}
                   else (\<Inter>sel \<in> set (Selectors s). set (positiveNames sel))))"
proof -
  from assms(2) obtain sels where
    a: "argSelectors (ArgTypes f) 0 (map (walkNode fa expr) args) [] = Inr sels"
    and ss: "ss = [keepLabels (zeroSource\<lparr>Type := FuncSource, Operation := FuncName f,
                               CallRef := Some (Call f args p), Selectors := sels\<rparr>)]"
    by (auto simp: parseCall_labelPreserving [OF assms(1)] bindE_def split: sum.splits)
  define s where "s = keepLabels (zeroSource\<lparr>Type := FuncSource, Operation := FuncName f,
                               CallRef := Some (Call f args p), Selectors := sels\<rparr>)"
  have sel: "Selectors s = sels" by (simp add: s_def keepLabels_def)
  have g: "GuaranteedLabels s = appendToSlice [] (labelsFromSelectors guaranteedLabelsMatches sels)"
    by (simp add: s_def keepLabels_def zeroSource_def)
  have r: "Returns s = ValueTypeVector" by (simp add: s_def keepLabels_def)
  have d: "distinct (GuaranteedLabels s)" unfolding g by (simp add: distinct_appendToSlice)
  have i: "(\<forall>sel \<in> set sels. distinct (positiveNames sel)) \<longrightarrow>
             set (GuaranteedLabels s) =
               (if sels = [] then {} else (\<Inter>sel \<in> set sels. set (positiveNames sel)))"
    unfolding g appendToSlice_Nil_set positiveNames_qual
    using set_labelsFromSelectors_inter [of sels guaranteedLabelsMatches] by blast
  have "ss = [s]" using ss by (simp add: s_def)
  with a r d i sel show ?thesis by blast
qed

text \<open>
  C2, as stated, fails: in \<open>abs(foo{a="1"} or bar{b="2"})\<close> the call has the selectors of
  both sides of \<open>or\<close>, the union of their positive matcher names is \<open>a\<close> and \<open>b\<close>, and
  no label is guaranteed.
\<close>

theorem abs_of_or_guarantees_nothing: \<open>map_sum id (map guaranteedIsUnion)
    (walkNode leftArith ''abs(foo{a="1"} or bar{b="2"})'' absOfOr) = Inr [False]\<close>
  by code_simp

theorem label_preserving_call_witness:
  \<open>map_sum id (map (\<lambda>s. (Returns s, GuaranteedLabels s)))
     (walkNode leftArith ''rate(foo{job="x"}[5m])'' rateOfFoo)
   = Inr [(ValueTypeVector, [''job''])]\<close>
proof -
  let ?e = \<open>''rate(foo{job="x"}[5m])''\<close>
  let ?f = "\<lparr>FuncName = ''rate'', ArgTypes = [ValueTypeMatrix]\<rparr>"
  let ?args = "[MatrixSelector (selector ''foo'' [(''job'', ''x'')] (pos 5 17)) 21]"
  let ?ss = "projr (walkNode leftArith ?e rateOfFoo)"
  have n: "FuncName ?f \<in> set labelPreservingNames"
    by (simp add: labelPreservingNames_def mathNames_def)
  have "isl (walkNode leftArith ?e rateOfFoo) = False" by code_simp
  then have w: "walkNode leftArith ?e (Call ?f ?args (pos 0 22)) = Inr ?ss"
    unfolding rateOfFoo_def
    by (cases "walkNode leftArith ?e (Call ?f ?args (pos 0 22))") auto
  have ev: "map GuaranteedLabels ?ss = [[''job'']]" by code_simp
  from label_preserving_call [OF n w]
  obtain s where "?ss = [s]" and "Returns s = ValueTypeVector" by blast
  with ev w show ?thesis by (simp add: rateOfFoo_def)
qed

subsection \<open>The invariant of the label lists\<close>

lemma mapE_preserves:
  assumes "mapE f xs = Inr ys" and "\<forall>x \<in> set xs. P x"
    and "\<And>x y. P x \<Longrightarrow> f x = Inr y \<Longrightarrow> Q y"
  shows "\<forall>y \<in> set ys. Q y"
  using assms(1,2)
proof (induction xs arbitrary: ys)
  case Nil
  then show ?case by simp
next
  case (Cons x xs)
  from Cons.prems(1) obtain y ys' where y: "f x = Inr y" and m: "mapE f xs = Inr ys'"
    and ys: "ys = y # ys'"
    by (auto simp: bindE_def split: sum.splits)
  have "Q y" by (rule assms(3) [OF _ y]) (use Cons.prems(2) in simp)
  moreover have "\<forall>y \<in> set ys'. Q y" using Cons.IH [OF m] Cons.prems(2) by simp
  ultimately show ?case using ys by simp
qed

lemma labelsOk_aggregateSource:
  assumes "aggregateSource expr grouping without p s = Inr s'" and "labelsOk s"
  shows "labelsOk s'"
  using assms set_keepGrouped [of grouping "GuaranteedLabels s"]
    set_removeFromSlice_subset [of "ExcludedLabels s" grouping]
  by (auto simp: aggregateSource_def bindE_def labelsOk_def distinct_appendToSlice
      distinct_removeFromSlice set_appendToSlice set_removeFromSlice distinct_keepGrouped
      split: sum.splits if_splits; blast)

lemma labelsOk_countValuesSource:
  assumes "countValuesSource param s = Inr s'" and "labelsOk s"
  shows "labelsOk s'"
  using assms
  by (auto simp: countValuesSource_def labelsOk_def distinct_appendToSlice
      distinct_removeFromSlice set_appendToSlice set_removeFromSlice
      simp del: appendToSlice.simps removeFromSlice.simps
      split: option.splits Node.splits)

lemma labelsOk_tagSource: "labelsOk (tagSource name s) = labelsOk s"
  by (simp add: tagSource_def labelsOk_def)

lemma labelsOk_Operation: "labelsOk (s\<lparr>Operation := name\<rparr>) = labelsOk s"
  by (simp add: labelsOk_def)

lemma labelsOk_defaultOperation: "labelsOk (defaultOperation c s) = labelsOk s"
  by (simp add: defaultOperation_def labelsOk_def)

lemma labelsOk_parseAggregation:
  assumes "parseAggregation expr grouping without p inner = Inr ss"
    and "\<And>srcs. inner = Inr srcs \<Longrightarrow> \<forall>s \<in> set srcs. labelsOk s"
  shows "\<forall>s \<in> set ss. labelsOk s"
proof -
  from assms(1) obtain srcs where i: "inner = Inr srcs"
    and m: "mapE (aggregateSource expr grouping without p) srcs = Inr ss"
    by (auto simp: parseAggregation_def bindE_def split: sum.splits)
  show ?thesis
    by (rule mapE_preserves [OF m assms(2) [OF i]]) (rule labelsOk_aggregateSource)
qed

lemma labelsOk_withOperation:
  assumes "withOperation name r = Inr ss" and "\<And>srcs. r = Inr srcs \<Longrightarrow> \<forall>s \<in> set srcs. labelsOk s"
  shows "\<forall>s \<in> set ss. labelsOk s"
  using assms by (auto simp: withOperation_def bindE_def labelsOk_Operation split: sum.splits)

lemma labelsOk_walkAggregation:
  assumes "walkAggregation expr op param grouping without p inner = Inr ss"
    and "\<And>srcs. inner = Inr srcs \<Longrightarrow> \<forall>s \<in> set srcs. labelsOk s"
  shows "\<forall>s \<in> set ss. labelsOk s"
proof -
  have agg: "\<And>name ss. withOperation name (parseAggregation expr grouping without p inner) = Inr ss
               \<Longrightarrow> \<forall>s \<in> set ss. labelsOk s"
    by (erule labelsOk_withOperation) (erule labelsOk_parseAggregation, rule assms(2))
  have cv: "\<And>ss. bindE (parseAggregation expr grouping without p inner)
                      (mapE (countValuesSource param)) = Inr ss
               \<Longrightarrow> \<forall>s \<in> set ss. labelsOk s"
  proof -
    fix ss
    assume "bindE (parseAggregation expr grouping without p inner)
              (mapE (countValuesSource param)) = Inr ss"
    then obtain ps where ps: "parseAggregation expr grouping without p inner = Inr ps"
      and m: "mapE (countValuesSource param) ps = Inr ss"
      by (auto simp: bindE_def split: sum.splits)
    have "\<forall>s \<in> set ps. labelsOk s" using ps assms(2) by (rule labelsOk_parseAggregation)
    with m show "\<forall>s \<in> set ss. labelsOk s"
      by (rule mapE_preserves) (rule labelsOk_countValuesSource)
  qed
  have tag: "\<And>name ss. bindE inner (\<lambda>ss. Inr (map (tagSource name) ss)) = Inr ss
               \<Longrightarrow> \<forall>s \<in> set ss. labelsOk s"
    using assms(2) by (auto simp: bindE_def labelsOk_tagSource split: sum.splits)
  show ?thesis
    using assms(1) by (cases op) (auto dest: agg cv tag)
qed

lemma labelsOk_keepLabels:
  "ExcludedLabels s = [] \<Longrightarrow> distinct (IncludedLabels s) \<Longrightarrow> distinct (GuaranteedLabels s)
   \<Longrightarrow> labelsOk (keepLabels s)"
  by (simp add: keepLabels_def labelsOk_def distinct_appendToSlice)

lemma labelsOk_noLabels:
  "noLabels expr p reason s = Inr s' \<Longrightarrow> ExcludedLabels s = [] \<Longrightarrow> labelsOk s'"
  by (auto simp: noLabels_def bindE_def labelsOk_def split: sum.splits)

lemma labelsOk_parseCall:
  assumes "parseCall expr f args p walked = Inr s"
  shows "labelsOk s"
  using assms
  unfolding parseCall_def Let_def bindE_def
  by (auto simp: labelsOk_def distinct_appendToSlice noLabels_def bindE_def zeroSource_def
        keepLabels_def
      simp del: appendToSlice.simps
      split: if_splits sum.splits Node.splits)

lemma pairLoop_labels:
  "pairLoop fa op ls rhs = (out, final) \<Longrightarrow>
   IncludedLabels final = IncludedLabels ls \<and> ExcludedLabels final = ExcludedLabels ls
   \<and> GuaranteedLabels final = GuaranteedLabels ls
   \<and> (\<forall>rs. EmitRHS rs \<in> set out \<longrightarrow> rs \<in> set rhs)"
proof (induction rhs arbitrary: ls out final)
  case Nil
  then show ?case by simp
next
  case (Cons rs rhs)
  show ?case
    using Cons.prems
    by (auto split: if_splits prod.splits dest!: Cons.IH)
qed

lemma labelsOk_pairSources:
  assumes "labelsOk ls" and "\<forall>rs \<in> set rhs. labelsOk rs"
  shows "\<forall>s \<in> set (pairSources fa op rhs ls). labelsOk s"
proof -
  obtain out final where pl: "pairLoop fa op ls rhs = (out, final)" by (cases "pairLoop fa op ls rhs")
  from pairLoop_labels [OF pl] assms
  have f: "labelsOk final" and r: "\<forall>rs. EmitRHS rs \<in> set out \<longrightarrow> labelsOk rs"
    by (auto simp: labelsOk_def)
  have "labelsOk (emit final em)" if "em \<in> set out" for em
  proof (cases em)
    case (EmitLHS d)
    with f show ?thesis by (simp add: labelsOk_def)
  next
    case (EmitRHS rs)
    with that r show ?thesis by simp
  qed
  then show ?thesis using pl by (auto simp: pairSources_def)
qed

lemma labelsOk_oneToOneSource:
  assumes "oneToOneSource expr vm p s = Inr s'" and "labelsOk s"
  shows "labelsOk s'"
  using assms set_removeFromSlice_subset [of "ExcludedLabels s" "MatchingLabels vm"]
  by (auto simp: oneToOneSource_def bindE_def labelsOk_def defaultOperation_def
      distinct_appendToSlice distinct_removeFromSlice set_appendToSlice set_removeFromSlice
      split: sum.splits if_splits; blast)

lemma labelsOk_includeOn: "labelsOk s \<Longrightarrow> labelsOk (includeOn vm s)"
  by (simp add: includeOn_def labelsOk_def distinct_appendToSlice)

lemma labelsOk_groupSource: "labelsOk s \<Longrightarrow> labelsOk (groupSource vm s)"
  using set_removeFromSlice_subset [of "ExcludedLabels s" "Include vm"]
  by (auto simp: groupSource_def Let_def includeOn_def labelsOk_def defaultOperation_def
      distinct_appendToSlice distinct_removeFromSlice)

lemma labelsOk_manyToManyLHS: "labelsOk s \<Longrightarrow> labelsOk (manyToManyLHS vm s)"
  by (simp add: manyToManyLHS_def labelsOk_defaultOperation labelsOk_includeOn)

lemma labelsOk_manyToManyRHS: "labelsOk s \<Longrightarrow> labelsOk (manyToManyRHS vm e s)"
  by (simp add: manyToManyRHS_def Let_def defaultOperation_def labelsOk_def)

lemma labelsOk_parseBinOps:
  assumes "parseBinOps fa expr op l r vmo wl wr = Inr ss"
    and "\<And>srcs. wl = Inr srcs \<Longrightarrow> \<forall>s \<in> set srcs. labelsOk s"
    and "\<And>srcs. wr = Inr srcs \<Longrightarrow> \<forall>s \<in> set srcs. labelsOk s"
  shows "\<forall>s \<in> set ss. labelsOk s"
proof (cases vmo)
  case None
  with assms(1) obtain lhs rhs where l: "wl = Inr lhs" and r: "wr = Inr rhs"
    and ss: "ss = concat (map (pairSources fa op rhs) lhs)"
    by (auto simp: parseBinOps_def bindE_def split: sum.splits)
  show ?thesis
    unfolding ss using assms(2) [OF l] assms(3) [OF r] labelsOk_pairSources [of _ rhs fa op]
    by auto
next
  case (Some vm)
  show ?thesis
  proof (cases "Card vm")
    case CardOneToOne
    with Some assms(1) obtain lhs where l: "wl = Inr lhs"
      and m: "mapE (oneToOneSource expr vm
                \<lparr>Start = Start (PositionRangeOf l), End = End (PositionRangeOf r)\<rparr>) lhs = Inr ss"
      by (auto simp: parseBinOps_def bindE_def split: sum.splits)
    show ?thesis
      by (rule mapE_preserves [OF m assms(2) [OF l]]) (rule labelsOk_oneToOneSource)
  next
    case CardManyToOne
    with Some assms(1) assms(2) show ?thesis
      by (auto simp: parseBinOps_def bindE_def labelsOk_groupSource split: sum.splits)
  next
    case CardOneToMany
    with Some assms(1) assms(3) show ?thesis
      by (auto simp: parseBinOps_def bindE_def labelsOk_groupSource split: sum.splits)
  next
    case CardManyToMany
    with Some assms show ?thesis
      by (auto simp: parseBinOps_def bindE_def Let_def labelsOk_manyToManyLHS
          labelsOk_manyToManyRHS split: sum.splits if_splits)
  qed
qed

lemma labelsOk_walkNode:
  "walkNode fa expr n = Inr ss \<Longrightarrow> \<forall>s \<in> set ss. labelsOk s"
proof (induction fa expr n arbitrary: ss rule: walkNode.induct)
  case (1 fa expr op e param grouping without pos)
  from "1.prems"
  have w: "walkAggregation expr op param grouping without pos (walkNode fa expr e) = Inr ss"
    by simp
  show ?case by (rule labelsOk_walkAggregation [OF w]) (rule "1.IH")
next
  case (2 fa expr op l r vm rb)
  from "2.prems"
  have w: "parseBinOps fa expr op l r vm (walkNode fa expr l) (walkNode fa expr r) = Inr ss"
    by simp
  show ?case by (rule labelsOk_parseBinOps [OF w]) (rule "2.IH", assumption)+
next
  case (3 fa expr f args pos)
  then show ?case
    by (auto simp: bindE_def split: sum.splits dest: labelsOk_parseCall)
next
  case (6 fa expr v pos)
  then show ?case
    by (auto simp: bindE_def labelsOk_def zeroSource_def split: sum.splits)
next
  case (8 fa expr v pos)
  then show ?case
    by (auto simp: bindE_def labelsOk_def zeroSource_def split: sum.splits)
next
  case (11 fa expr n)
  then show ?case
    by (auto simp: labelsOk_def zeroSource_def distinct_appendToSlice)
qed auto

text \<open>
  C1. In every source that \<open>LabelsSource\<close> returns, for every node, no label name is
  both guaranteed and excluded.
\<close>

theorem guaranteed_excluded_disjoint:
  assumes "LabelsSource fa expr node = Inr ss" and "s \<in> set ss"
  shows "set (GuaranteedLabels s) \<inter> set (ExcludedLabels s) = {}"
  using labelsOk_walkNode [of fa expr node ss] assms
  by (simp add: LabelsSource_def labelsOk_def)

theorem guaranteed_excluded_disjoint_witness:
  \<open>\<exists>s. LabelsSource leftArith ''sum without(a) (foo{a="1", b="2"})'' sumWithoutA = Inr [s]
        \<and> GuaranteedLabels s = [''b''] \<and> ExcludedLabels s = [''a'']
        \<and> set (GuaranteedLabels s) \<inter> set (ExcludedLabels s) = {}\<close>
proof -
  let ?r = \<open>LabelsSource leftArith ''sum without(a) (foo{a="1", b="2"})'' sumWithoutA\<close>
  have "isl ?r = False" and len: "length (projr ?r) = 1"
    and g: "map GuaranteedLabels (projr ?r) = [[''b'']]"
    and e: "map ExcludedLabels (projr ?r) = [[''a'']]"
    by code_simp+
  then have w: "?r = Inr (projr ?r)" by (cases ?r) auto
  from len obtain s where s: "projr ?r = [s]" by (cases "projr ?r") auto
  then have "s \<in> set (projr ?r)" by simp
  from guaranteed_excluded_disjoint [OF w this] w s g e show ?thesis by simp
qed

text \<open>
  C10. In every source that \<open>LabelsSource\<close> returns, for every node, no label name
  occurs twice in the included labels, in the excluded labels or in the guaranteed labels.
\<close>

theorem label_lists_duplicate_free:
  assumes "LabelsSource fa expr node = Inr ss" and "s \<in> set ss"
  shows "distinct (IncludedLabels s) \<and> distinct (ExcludedLabels s)
         \<and> distinct (GuaranteedLabels s)"
  using labelsOk_walkNode [of fa expr node ss] assms
  by (simp add: LabelsSource_def labelsOk_def)

theorem label_lists_duplicate_free_witness:
  \<open>\<exists>s. LabelsSource leftArith ''sum by(c) (foo{a="1", b="2", c="3"})'' sumByC = Inr [s]
        \<and> IncludedLabels s = [''c''] \<and> ExcludedLabels s = []
        \<and> GuaranteedLabels s = [''b'', ''c'']
        \<and> distinct (IncludedLabels s) \<and> distinct (ExcludedLabels s)
        \<and> distinct (GuaranteedLabels s)\<close>
proof -
  let ?r = \<open>LabelsSource leftArith ''sum by(c) (foo{a="1", b="2", c="3"})'' sumByC\<close>
  have "isl ?r = False" and len: "length (projr ?r) = 1"
    and g: "map GuaranteedLabels (projr ?r) = [[''b'', ''c'']]"
    and e: "map ExcludedLabels (projr ?r) = [[]]"
    and i: "map IncludedLabels (projr ?r) = [[''c'']]"
    by code_simp+
  then have w: "?r = Inr (projr ?r)" by (cases ?r) auto
  from len obtain s where s: "projr ?r = [s]" by (cases "projr ?r") auto
  then have "s \<in> set (projr ?r)" by simp
  from label_lists_duplicate_free [OF w this] w s g e i show ?thesis by simp
qed

subsection \<open>Aggregation with by\<close>

lemma mapE_list_all2: "mapE f xs = Inr ys \<Longrightarrow> list_all2 (\<lambda>x y. f x = Inr y) xs ys"
  by (induction xs arbitrary: ys) (auto simp: bindE_def split: sum.splits)

lemma aggregateSource_by:
  assumes "grouping \<noteq> []" and "aggregateSource expr grouping False p i = Inr s"
    and "distinct (GuaranteedLabels i)"
  shows "FixedLabels s
         \<and> (\<not> FixedLabels i \<longrightarrow> set grouping \<subseteq> set (IncludedLabels s))
         \<and> (FixedLabels i \<longrightarrow> IncludedLabels s = IncludedLabels i)
         \<and> (noTwoUngroupedAdjacent grouping (GuaranteedLabels i) \<longrightarrow>
              GuaranteedLabels s = filter (\<lambda>x. x \<in> set grouping) (GuaranteedLabels i))
         \<and> set (GuaranteedLabels s) \<subseteq> set (GuaranteedLabels i)
         \<and> set (GuaranteedLabels i) \<inter> set grouping \<subseteq> set (GuaranteedLabels s)"
proof -
  have g: "GuaranteedLabels s = keepGrouped grouping (GuaranteedLabels i)"
    using assms(1,2)
    by (auto simp: aggregateSource_def bindE_def split: sum.splits if_splits)
  have rest: "FixedLabels s
         \<and> (\<not> FixedLabels i \<longrightarrow> set grouping \<subseteq> set (IncludedLabels s))
         \<and> (FixedLabels i \<longrightarrow> IncludedLabels s = IncludedLabels i)"
    using assms(1,2)
    by (auto simp: aggregateSource_def bindE_def set_appendToSlice split: sum.splits if_splits)
  show ?thesis
    using rest set_keepGrouped [of grouping "GuaranteedLabels i"]
      keepGrouped_keeps [of "GuaranteedLabels i" grouping]
      keepGrouped_exact [OF assms(3), of grouping]
    unfolding g by blast
qed

text \<open>
  C3, amended. For a non-empty grouping, the sources of \<open>sum by(L) (X)\<close> correspond one
  to one to the sources of \<open>X\<close>; each has \<open>FixedLabels\<close>; its included labels contain \<open>L\<close>
  when the source of \<open>X\<close> was not fixed already and are those of the source of \<open>X\<close>
  when it was; and, when no two neighbours among the guaranteed labels of the source of
  \<open>X\<close> are both outside \<open>L\<close>, its guaranteed labels are exactly those of the source of
  \<open>X\<close> that are in \<open>L\<close>. On every input they are among those of the source of \<open>X\<close> and
  keep every one of them that is in \<open>L\<close>.
\<close>

theorem sum_by_labels:
  assumes "grouping \<noteq> []"
    and "walkNode fa expr x = Inr inner"
    and "walkNode fa expr (AggregateExpr ItemSUM x param grouping False p) = Inr out"
  shows "list_all2 (\<lambda>i s. FixedLabels s
           \<and> (\<not> FixedLabels i \<longrightarrow> set grouping \<subseteq> set (IncludedLabels s))
           \<and> (FixedLabels i \<longrightarrow> IncludedLabels s = IncludedLabels i)
           \<and> (noTwoUngroupedAdjacent grouping (GuaranteedLabels i) \<longrightarrow>
                GuaranteedLabels s = filter (\<lambda>x. x \<in> set grouping) (GuaranteedLabels i))
           \<and> set (GuaranteedLabels s) \<subseteq> set (GuaranteedLabels i)
           \<and> set (GuaranteedLabels i) \<inter> set grouping \<subseteq> set (GuaranteedLabels s)) inner out"
proof -
  from assms(2,3) obtain ys where ys: "mapE (aggregateSource expr grouping False p) inner = Inr ys"
    and out: "out = map (\<lambda>s. s\<lparr>Operation := ''sum''\<rparr>) ys"
    by (auto simp: withOperation_def parseAggregation_def bindE_def split: sum.splits)
  have d: "\<forall>i \<in> set inner. distinct (GuaranteedLabels i)"
    using labelsOk_walkNode [OF assms(2)] by (simp add: labelsOk_def)
  have "list_all2 (\<lambda>i y. aggregateSource expr grouping False p i = Inr y) inner ys"
    using ys by (rule mapE_list_all2)
  then have "list_all2 (\<lambda>i y. aggregateSource expr grouping False p i = Inr y
                \<and> distinct (GuaranteedLabels i)) inner ys"
    using d by (auto simp: list_all2_conv_all_nth)
  then have "list_all2 (\<lambda>i s. FixedLabels s
           \<and> (\<not> FixedLabels i \<longrightarrow> set grouping \<subseteq> set (IncludedLabels s))
           \<and> (FixedLabels i \<longrightarrow> IncludedLabels s = IncludedLabels i)
           \<and> (noTwoUngroupedAdjacent grouping (GuaranteedLabels i) \<longrightarrow>
                GuaranteedLabels s = filter (\<lambda>x. x \<in> set grouping) (GuaranteedLabels i))
           \<and> set (GuaranteedLabels s) \<subseteq> set (GuaranteedLabels i)
           \<and> set (GuaranteedLabels i) \<inter> set grouping \<subseteq> set (GuaranteedLabels s)) inner ys"
    by (rule list_all2_mono) (use aggregateSource_by [OF assms(1)] in blast)
  then show ?thesis
    unfolding out by (simp add: list_all2_map2)
qed

text \<open>
  C3, as stated, fails in two ways. Over a source whose labels are fixed already the
  grouping is not added to the included labels: in \<open>sum by(a) (sum by(b) (foo))\<close> the
  included labels stay \<open>b\<close>. And the loop that drops the guaranteed labels outside the
  grouping ranges over the slice it shrinks, so it skips the label that follows each
  label it removes: in \<open>sum by(c) (foo{a="1", b="2", c="3"})\<close> the label \<open>b\<close> stays
  guaranteed.
\<close>

theorem sum_by_over_fixed_source:
  \<open>map_sum id (map IncludedLabels)
     (walkNode leftArith ''sum by(a) (sum by(b) (foo))'' sumBySumBy) = Inr [[''b'']]
   \<and> map_sum id (map GuaranteedLabels)
     (walkNode leftArith ''sum by(c) (foo{a="1", b="2", c="3"})'' sumByC) = Inr [[''b'', ''c'']]\<close>
  by code_simp

theorem sum_by_labels_witness:
  \<open>map_sum id (map (\<lambda>s. (FixedLabels s, IncludedLabels s, GuaranteedLabels s)))
     (walkNode leftArith ''sum by(b) (foo{a="1", b="2", c="3"})'' sumByB)
   = Inr [(True, [''b''], [''b''])]\<close>
proof -
  let ?e = \<open>''sum by(b) (foo{a="1", b="2", c="3"})''\<close>
  let ?inner = "projr (walkNode leftArith ?e fooABC)"
  let ?out = "projr (walkNode leftArith ?e sumByB)"
  have g: "[''b''] \<noteq> []" by simp
  have i: "walkNode leftArith ?e fooABC = Inr ?inner"
    by (simp add: fooABC_def selector_def)
  have "isl (walkNode leftArith ?e sumByB) = False" by code_simp
  then have o: "walkNode leftArith ?e (AggregateExpr ItemSUM fooABC None [''b''] False (pos 0 36))
                = Inr ?out"
    unfolding sumByB_def
    by (cases "walkNode leftArith ?e (AggregateExpr ItemSUM fooABC None [''b''] False (pos 0 36))") auto
  have gi: "map GuaranteedLabels ?inner = [[''a'', ''b'', ''c'']]" by code_simp
  have fi: "map FixedLabels ?inner = [False]" by code_simp
  from gi fi obtain i0 where i0: "?inner = [i0]" "GuaranteedLabels i0 = [''a'', ''b'', ''c'']"
    "\<not> FixedLabels i0"
    by (cases ?inner) auto
  have adj: "noTwoUngroupedAdjacent [''b''] (GuaranteedLabels i0)" unfolding i0(2) by simp
  from sum_by_labels [OF g i o] i0(1) obtain s where s: "?out = [s]" "FixedLabels s"
    "set [''b''] \<subseteq> set (IncludedLabels s)"
    "GuaranteedLabels s = filter (\<lambda>x. x \<in> set [''b'']) (GuaranteedLabels i0)"
    using adj i0(3) by (auto simp: list_all2_Cons1)
  have ev: "map IncludedLabels ?out = [[''b'']]" by code_simp
  from s ev o i0(2) show ?thesis by (simp add: sumByB_def)
qed

subsection \<open>Well-formed nodes walk to at least one source\<close>

lemma getQueryFragment_valid: "validRange expr p \<Longrightarrow> \<exists>frag. getQueryFragment expr p = Inr frag"
  by (simp add: getQueryFragment_def validRange_def)

lemma setReasons_valid:
  "validRange expr p \<Longrightarrow> \<exists>m'. setReasons expr p reason names m = Inr m'"
proof (induction names arbitrary: m)
  case Nil
  then show ?case by simp
next
  case (Cons name names)
  from getQueryFragment_valid [OF Cons.prems] obtain frag where "getQueryFragment expr p = Inr frag" ..
  with Cons.IH [OF Cons.prems] show ?case by (simp add: bindE_def)
qed

lemma mapE_total:
  assumes "\<forall>x \<in> set xs. \<exists>y. f x = Inr y \<and> Q y"
  shows "\<exists>ys. mapE f xs = Inr ys \<and> length ys = length xs \<and> (\<forall>y \<in> set ys. Q y)"
  using assms
proof (induction xs)
  case Nil
  then show ?case by simp
next
  case (Cons x xs)
  from Cons.prems obtain y where y: "f x = Inr y" "Q y" by auto
  from Cons obtain ys where "mapE f xs = Inr ys" "length ys = length xs" "\<forall>y \<in> set ys. Q y"
    by auto
  with y show ?case by (simp add: bindE_def)
qed

lemma aggregateSource_valid:
  assumes "validRange expr p"
  shows "\<exists>s'. aggregateSource expr grouping without p s = Inr s' \<and> emits s'"
proof -
  from getQueryFragment_valid [OF assms] obtain frag where f: "getQueryFragment expr p = Inr frag" ..
  from setReasons_valid [OF assms] obtain m' where
    m: "setReasons expr p (withoutReason grouping) grouping (ExcludeReason s) = Inr m'" ..
  show ?thesis
    using f m by (simp add: aggregateSource_def bindE_def emits_def)
qed

lemma parseAggregation_emits:
  assumes "validRange expr p" and "emitsAll inner"
  shows "emitsAll (parseAggregation expr grouping without p inner)"
proof -
  from assms(2) obtain srcs where i: "inner = Inr srcs" "srcs \<noteq> []" by (auto simp: emitsAll_def)
  have "\<forall>s \<in> set srcs. \<exists>s'. aggregateSource expr grouping without p s = Inr s' \<and> emits s'"
    using aggregateSource_valid [OF assms(1)] by blast
  from mapE_total [OF this] i show ?thesis
    by (auto simp: parseAggregation_def bindE_def emitsAll_def)
qed

lemma withOperation_emits: "emitsAll r \<Longrightarrow> emitsAll (withOperation name r)"
  by (auto simp: emitsAll_def withOperation_def bindE_def emits_def)

lemma countValues_emits:
  assumes "emitsAll r" and "isStringLiteral q"
  shows "emitsAll (bindE r (mapE (countValuesSource (Some q))))"
proof -
  from assms(1) obtain srcs where i: "r = Inr srcs" "srcs \<noteq> []" "\<forall>s \<in> set srcs. emits s"
    by (auto simp: emitsAll_def)
  have "\<forall>s \<in> set srcs. \<exists>s'. countValuesSource (Some q) s = Inr s' \<and> emits s'"
    using assms(2) i(3) by (cases q) (auto simp: countValuesSource_def emits_def)
  from mapE_total [OF this] i show ?thesis
    by (auto simp: bindE_def emitsAll_def)
qed

lemma tag_emits: "emitsAll r \<Longrightarrow> emitsAll (bindE r (\<lambda>ss. Inr (map (tagSource name) ss)))"
  by (auto simp: emitsAll_def bindE_def emits_def tagSource_def)

lemma walkAggregation_emits:
  assumes "handledAggregation op" and "validRange expr p" and "emitsAll inner"
    and "op = COUNT_VALUES \<longrightarrow> (case param of Some q \<Rightarrow> isStringLiteral q | None \<Rightarrow> False)"
  shows "emitsAll (walkAggregation expr op param grouping without p inner)"
proof -
  note pa = parseAggregation_emits [OF assms(2,3), of grouping without]
  show ?thesis
    using assms(1,3,4) pa
    by (cases op)
      (auto intro: withOperation_emits countValues_emits tag_emits split: option.splits)
qed

lemma pairLoop_emits:
  "pairLoop fa op ls rhs = (out, final) \<Longrightarrow> emits ls \<Longrightarrow> \<forall>rs \<in> set rhs. emits rs \<Longrightarrow>
   length out = length rhs \<and> Returns final = Returns ls \<and> AlwaysReturns final = AlwaysReturns ls
   \<and> (\<forall>rs. EmitRHS rs \<in> set out \<longrightarrow> rs \<in> set rhs)"
proof (induction rhs arbitrary: ls out final)
  case Nil
  then show ?case by simp
next
  case (Cons rs rhs)
  show ?case
    using Cons.prems
    by (auto simp: emits_def split: if_splits prod.splits dest!: Cons.IH)
qed

lemma pairSources_emits:
  assumes "emits ls" and "\<forall>rs \<in> set rhs. emits rs" and "rhs \<noteq> []"
  shows "pairSources fa op rhs ls \<noteq> [] \<and> (\<forall>s \<in> set (pairSources fa op rhs ls). emits s)"
proof -
  obtain out final where pl: "pairLoop fa op ls rhs = (out, final)" by (cases "pairLoop fa op ls rhs")
  from pairLoop_emits [OF pl assms(1,2)]
  have len: "length out = length rhs" and f: "emits final"
    and r: "\<forall>rs. EmitRHS rs \<in> set out \<longrightarrow> emits rs"
    using assms(1,2) by (auto simp: emits_def)
  have "emits (emit final em)" if "em \<in> set out" for em
  proof (cases em)
    case (EmitLHS d)
    with f show ?thesis by (simp add: emits_def)
  next
    case (EmitRHS rs)
    with that r show ?thesis by simp
  qed
  moreover have "out \<noteq> []" using len assms(3) by auto
  ultimately show ?thesis using pl by (auto simp: pairSources_def)
qed

lemma oneToOneSource_valid:
  assumes "validRange expr p" and "emits s"
  shows "\<exists>s'. oneToOneSource expr vm p s = Inr s' \<and> emits s'"
proof -
  from getQueryFragment_valid [OF assms(1)] obtain frag where f: "getQueryFragment expr p = Inr frag" ..
  from setReasons_valid [OF assms(1)] obtain m' where
    m: "setReasons expr p (ignoringReason vm) (MatchingLabels vm) (ExcludeReason s) = Inr m'" ..
  show ?thesis
    using f m assms(2) by (simp add: oneToOneSource_def bindE_def emits_def defaultOperation_def)
qed

lemma emits_groupSource: "emits s \<Longrightarrow> emits (groupSource vm s)"
  by (simp add: groupSource_def Let_def includeOn_def defaultOperation_def emits_def)

lemma emits_manyToManyLHS: "emits s \<Longrightarrow> emits (manyToManyLHS vm s)"
  by (simp add: manyToManyLHS_def includeOn_def defaultOperation_def emits_def)

lemma emits_manyToManyRHS: "emits s \<Longrightarrow> emits (manyToManyRHS vm e s)"
  by (simp add: manyToManyRHS_def Let_def defaultOperation_def emits_def)

lemma parseBinOps_emits:
  assumes "emitsAll wl" and "emitsAll wr"
    and "validRange expr \<lparr>Start = Start (PositionRangeOf l), End = End (PositionRangeOf r)\<rparr>"
  shows "emitsAll (parseBinOps fa expr op l r vmo wl wr)"
proof -
  from assms(1) obtain lhs where l: "wl = Inr lhs" "lhs \<noteq> []" "\<forall>s \<in> set lhs. emits s"
    by (auto simp: emitsAll_def)
  from assms(2) obtain rhs where r: "wr = Inr rhs" "rhs \<noteq> []" "\<forall>s \<in> set rhs. emits s"
    by (auto simp: emitsAll_def)
  show ?thesis
  proof (cases vmo)
    case None
    have each: "\<forall>ls \<in> set lhs. pairSources fa op rhs ls \<noteq> []
                  \<and> (\<forall>s \<in> set (pairSources fa op rhs ls). emits s)"
      using pairSources_emits [OF _ r(3) r(2)] l(3) by blast
    obtain l0 lt where "lhs = l0 # lt" using l(2) by (cases lhs) auto
    with each have "concat (map (pairSources fa op rhs) lhs) \<noteq> []" by auto
    with each None l r show ?thesis
      by (auto simp: parseBinOps_def bindE_def emitsAll_def)
  next
    case (Some vm)
    show ?thesis
    proof (cases "Card vm")
      case CardOneToOne
      have "\<forall>s \<in> set lhs. \<exists>s'. oneToOneSource expr vm
              \<lparr>Start = Start (PositionRangeOf l), End = End (PositionRangeOf r)\<rparr> s = Inr s'
              \<and> emits s'"
        using oneToOneSource_valid [OF assms(3)] l(3) by blast
      from mapE_total [OF this] Some CardOneToOne l show ?thesis
        by (auto simp: parseBinOps_def bindE_def emitsAll_def)
    next
      case CardManyToOne
      with Some l show ?thesis
        by (auto simp: parseBinOps_def bindE_def emitsAll_def emits_groupSource)
    next
      case CardOneToMany
      with Some r show ?thesis
        by (auto simp: parseBinOps_def bindE_def emitsAll_def emits_groupSource)
    next
      case CardManyToMany
      with Some l r show ?thesis
        by (auto simp: parseBinOps_def bindE_def emitsAll_def Let_def emits_manyToManyLHS
            emits_manyToManyRHS)
    qed
  qed
qed

lemma argSelectors_total:
  assumes "\<forall>w \<in> set walked. \<exists>srcs. w = Inr srcs" and "walked \<noteq> [] \<longrightarrow> argTypes \<noteq> []"
  shows "\<exists>sels'. argSelectors argTypes i walked sels = Inr sels'"
  using assms
proof (induction walked arbitrary: i sels)
  case Nil
  then show ?case by simp
next
  case (Cons w walked)
  from Cons.prems obtain srcs where w: "w = Inr srcs" by auto
  have nz: "argTypes \<noteq> []" using Cons.prems by simp
  have ih: "\<And>i sels. \<exists>sels'. argSelectors argTypes i walked sels = Inr sels'"
    using Cons.IH Cons.prems nz by simp
  show ?case
    using w nz ih by (simp add: Let_def bindE_def)
qed

lemma parseCall_emits:
  assumes "FuncName f \<in> set knownFunctions" and "validRange expr p"
    and "\<forall>w \<in> set walked. \<exists>srcs. w = Inr srcs" and "walked \<noteq> [] \<longrightarrow> ArgTypes f \<noteq> []"
    and "FuncName f = ''label_replace'' \<or> FuncName f = ''label_join''
         \<longrightarrow> 1 < length args \<and> isStringLiteral (args ! 1)"
    and "FuncName f = ''vector'' \<longrightarrow> args \<noteq> []"
  shows "\<exists>s. parseCall expr f args p walked = Inr s \<and> emits s"
proof -
  from argSelectors_total [OF assms(3,4)] obtain sels where
    a: "argSelectors (ArgTypes f) 0 walked [] = Inr sels" by blast
  from getQueryFragment_valid [OF assms(2)] obtain frag where
    fr: "getQueryFragment expr p = Inr frag" ..
  have lr: "\<exists>v q. args ! 1 = StringLiteral v q"
    if "FuncName f = ''label_replace'' \<or> FuncName f = ''label_join''"
    using assms(5) that by (cases "args ! 1") auto
  have other: "FuncName f \<notin> set transformNames \<Longrightarrow> FuncName f \<noteq> ''absent'' \<Longrightarrow>
      FuncName f \<noteq> ''absent_over_time'' \<Longrightarrow> FuncName f \<notin> set overTimeNames \<Longrightarrow>
      FuncName f \<notin> set calendarNames \<Longrightarrow> FuncName f \<notin> set mathNames \<Longrightarrow>
      FuncName f \<noteq> ''label_replace'' \<Longrightarrow> FuncName f \<noteq> ''label_join'' \<Longrightarrow>
      FuncName f \<noteq> ''pi'' \<Longrightarrow> FuncName f \<noteq> ''scalar'' \<Longrightarrow> FuncName f \<noteq> ''sort'' \<Longrightarrow>
      FuncName f \<noteq> ''sort_desc'' \<Longrightarrow> FuncName f \<noteq> ''time'' \<Longrightarrow>
      FuncName f \<noteq> ''timestamp'' \<Longrightarrow> FuncName f \<noteq> ''vector'' \<Longrightarrow> False"
    using assms(1) by (auto simp: knownFunctions_def labelPreservingNames_def)
  show ?thesis
    using a fr lr assms(5,6) other
    unfolding parseCall_def Let_def
    by (auto simp: bindE_def noLabels_def keepLabels_def emits_def)
qed

lemma wellFormed_emits:
  "wellFormed expr n \<Longrightarrow> emitsAll (walkNode fa expr n)"
proof (induction fa expr n rule: walkNode.induct)
  case (1 fa expr op e param grouping without pos)
  then show ?case by (auto intro!: walkAggregation_emits)
next
  case (2 fa expr op l r vm rb)
  then show ?case by (auto intro!: parseBinOps_emits)
next
  case (3 fa expr f args pos)
  have w: "\<forall>w \<in> set (map (walkNode fa expr) args). \<exists>srcs. w = Inr srcs"
  proof
    fix w
    assume "w \<in> set (map (walkNode fa expr) args)"
    then obtain a where a: "a \<in> set args" "w = walkNode fa expr a" by auto
    from "3.prems" a have "wellFormed expr a" by simp
    from "3.IH" [OF a(1) this] show "\<exists>srcs. w = Inr srcs"
      using a(2) by (auto simp: emitsAll_def)
  qed
  have "\<exists>s. parseCall expr f args pos (map (walkNode fa expr) args) = Inr s \<and> emits s"
    by (rule parseCall_emits [OF _ _ w]) (use "3.prems" in auto)
  then show ?case by (auto simp: bindE_def emitsAll_def)
next
  case (6 fa expr v pos)
  then show ?case
    by (auto simp: bindE_def emitsAll_def emits_def dest!: getQueryFragment_valid)
next
  case (8 fa expr v pos)
  then show ?case
    by (auto simp: bindE_def emitsAll_def emits_def dest!: getQueryFragment_valid)
next
  case (11 fa expr n)
  then show ?case by (simp add: emitsAll_def emits_def)
qed auto

subsection \<open>Panics\<close>

text \<open>
  C8. The parser accepts a parenthesised string literal where a string is expected, as in
  \<open>count_values(("x"), foo)\<close>; \<open>walkAggregation\<close> asserts that the parameter is a string
  literal node, finds a \<open>ParenExpr\<close> and panics, so that no list of sources is returned.
\<close>

theorem count_values_paren_panics:
  \<open>LabelsSource leftArith ''count_values(("x"), foo)'' countValuesParen = Inl InterfaceConversion\<close>
proof -
  let ?r = \<open>LabelsSource leftArith ''count_values(("x"), foo)'' countValuesParen\<close>
  have "map_sum id length ?r = Inl InterfaceConversion" by code_simp
  then show ?thesis by (cases ?r) auto
qed

end
